theory Spec2Isabelle
  imports Main "HOL-Library.Word"
begin

unbundle bit_operations_syntax

section \<open>Bytes, results and errors\<close>

text \<open>
  A \<open>Uint8Array\<close> is a list of 8-bit words. Every \<open>throw\<close> of the sources is a value
  of the type \<open>error\<close>; a function that can throw returns \<open>error + 'a\<close>.
\<close>

type_synonym byte = "8 word"

datatype error =
    InvalidKeySize nat
  | InvalidBlockSize nat
  | InvalidTagSize nat
  | AuthenticationFailed
  | InvalidHLength nat
  | UnpaddedData nat
  | ExpectedSixteenBytes nat
  | TypeError
  | InvalidCharacter
  | SyntaxError
  | PasswordVerificationFailed
  | RemoteImportVerificationFailed
  | CannotRetrieveSecretKey
  | CurrentPasswordIncorrect
  | ServerUpdateFailed
  | SafetyCheckB
  | SafetyCheckA
  | InvalidProof
  | FetchError

text \<open>Reading a typed array past its end gives \<open>undefined\<close>, which \<open>^\<close> treats as 0.\<close>

definition at0 :: "byte list \<Rightarrow> nat \<Rightarrow> byte" where
  "at0 xs i = (if i < length xs then xs ! i else 0)"

text \<open>Sequencing: the first \<open>throw\<close> ends the computation.\<close>

definition andThen :: "error + 'a \<Rightarrow> ('a \<Rightarrow> error + 'b) \<Rightarrow> error + 'b" where
  "andThen r f = (case r of Inl e \<Rightarrow> Inl e | Inr x \<Rightarrow> f x)"

section \<open>AES-256 block cipher (crypto/aes.ts)\<close>

definition S_BOX :: "byte list" where
  "S_BOX = [
    0x63, 0x7c, 0x77, 0x7b, 0xf2, 0x6b, 0x6f, 0xc5, 0x30, 0x01, 0x67, 0x2b, 0xfe, 0xd7, 0xab, 0x76,
    0xca, 0x82, 0xc9, 0x7d, 0xfa, 0x59, 0x47, 0xf0, 0xad, 0xd4, 0xa2, 0xaf, 0x9c, 0xa4, 0x72, 0xc0,
    0xb7, 0xfd, 0x93, 0x26, 0x36, 0x3f, 0xf7, 0xcc, 0x34, 0xa5, 0xe5, 0xf1, 0x71, 0xd8, 0x31, 0x15,
    0x04, 0xc7, 0x23, 0xc3, 0x18, 0x96, 0x05, 0x9a, 0x07, 0x12, 0x80, 0xe2, 0xeb, 0x27, 0xb2, 0x75,
    0x09, 0x83, 0x2c, 0x1a, 0x1b, 0x6e, 0x5a, 0xa0, 0x52, 0x3b, 0xd6, 0xb3, 0x29, 0xe3, 0x2f, 0x84,
    0x53, 0xd1, 0x00, 0xed, 0x20, 0xfc, 0xb1, 0x5b, 0x6a, 0xcb, 0xbe, 0x39, 0x4a, 0x4c, 0x58, 0xcf,
    0xd0, 0xef, 0xaa, 0xfb, 0x43, 0x4d, 0x33, 0x85, 0x45, 0xf9, 0x02, 0x7f, 0x50, 0x3c, 0x9f, 0xa8,
    0x51, 0xa3, 0x40, 0x8f, 0x92, 0x9d, 0x38, 0xf5, 0xbc, 0xb6, 0xda, 0x21, 0x10, 0xff, 0xf3, 0xd2,
    0xcd, 0x0c, 0x13, 0xec, 0x5f, 0x97, 0x44, 0x17, 0xc4, 0xa7, 0x7e, 0x3d, 0x64, 0x5d, 0x19, 0x73,
    0x60, 0x81, 0x4f, 0xdc, 0x22, 0x2a, 0x90, 0x88, 0x46, 0xee, 0xb8, 0x14, 0xde, 0x5e, 0x0b, 0xdb,
    0xe0, 0x32, 0x3a, 0x0a, 0x49, 0x06, 0x24, 0x5c, 0xc2, 0xd3, 0xac, 0x62, 0x91, 0x95, 0xe4, 0x79,
    0xe7, 0xc8, 0x37, 0x6d, 0x8d, 0xd5, 0x4e, 0xa9, 0x6c, 0x56, 0xf4, 0xea, 0x65, 0x7a, 0xae, 0x08,
    0xba, 0x78, 0x25, 0x2e, 0x1c, 0xa6, 0xb4, 0xc6, 0xe8, 0xdd, 0x74, 0x1f, 0x4b, 0xbd, 0x8b, 0x8a,
    0x70, 0x3e, 0xb5, 0x66, 0x48, 0x03, 0xf6, 0x0e, 0x61, 0x35, 0x57, 0xb9, 0x86, 0xc1, 0x1d, 0x9e,
    0xe1, 0xf8, 0x98, 0x11, 0x69, 0xd9, 0x8e, 0x94, 0x9b, 0x1e, 0x87, 0xe9, 0xce, 0x55, 0x28, 0xdf,
    0x8c, 0xa1, 0x89, 0x0d, 0xbf, 0xe6, 0x42, 0x68, 0x41, 0x99, 0x2d, 0x0f, 0xb0, 0x54, 0xbb, 0x16]"

definition RCON :: "byte list" where
  "RCON = [0x01, 0x02, 0x04, 0x08, 0x10, 0x20, 0x40, 0x80, 0x1b, 0x36]"

definition BLOCK_SIZE :: nat where "BLOCK_SIZE = 16"
definition KEY_SIZE :: nat where "KEY_SIZE = 32"
definition NUM_ROUNDS :: nat where "NUM_ROUNDS = 14"
definition NK :: nat where "NK = 8"
definition NB :: nat where "NB = 4"

text \<open>\<open>gmul\<close>: eight rounds of shift-and-add in GF(2^8), reduced by 0x1b.\<close>

fun gmul_loop :: "nat \<Rightarrow> byte \<Rightarrow> byte \<Rightarrow> byte \<Rightarrow> byte" where
  "gmul_loop 0 a b result = result"
| "gmul_loop (Suc n) a b result =
     (let result' = (if b AND 1 \<noteq> 0 then result XOR a else result);
          highBit = a AND 0x80;
          a1 = push_bit 1 a;
          a2 = (if highBit \<noteq> 0 then a1 XOR 0x1b else a1)
      in gmul_loop n a2 (drop_bit 1 b) result')"

definition gmul :: "byte \<Rightarrow> byte \<Rightarrow> byte" where
  "gmul a b = gmul_loop 8 a b 0"

definition rotWord :: "byte list \<Rightarrow> byte list" where
  "rotWord w = [w ! 1, w ! 2, w ! 3, w ! 0]"

definition subWord :: "byte list \<Rightarrow> byte list" where
  "subWord w = map (\<lambda>b. S_BOX ! unat b) w"

text \<open>
  The second loop of \<open>keyExpansion\<close>: the word with index \<open>i = length w\<close> is appended,
  \<open>n\<close> times.
\<close>

fun expandWords :: "nat \<Rightarrow> byte list list \<Rightarrow> byte list list" where
  "expandWords 0 w = w"
| "expandWords (Suc n) w =
     (let i = length w;
          temp0 = w ! (i - 1);
          temp = (if i mod NK = 0
                  then (let t = subWord (rotWord temp0) in t[0 := t ! 0 XOR RCON ! (i div NK - 1)])
                  else if NK > 6 \<and> i mod NK = 4 then subWord temp0
                  else temp0);
          back8 = w ! (i - NK)
      in expandWords n (w @ [[back8 ! 0 XOR temp ! 0, back8 ! 1 XOR temp ! 1,
                              back8 ! 2 XOR temp ! 2, back8 ! 3 XOR temp ! 3]]))"

definition keyExpansion :: "byte list \<Rightarrow> error + byte list list" where
  "keyExpansion key =
     (if length key \<noteq> KEY_SIZE then Inl (InvalidKeySize (length key))
      else
        (let totalWords = NB * (NUM_ROUNDS + 1);
             w0 = map (\<lambda>i. [key ! (4 * i), key ! (4 * i + 1), key ! (4 * i + 2), key ! (4 * i + 3)])
                      [0..<NK];
             w = expandWords (totalWords - NK) w0
         in Inr (map (\<lambda>round. concat (map (\<lambda>word. w ! (round * NB + word)) [0..<NB]))
                     [0..<NUM_ROUNDS + 1])))"

definition addRoundKey :: "byte list \<Rightarrow> byte list \<Rightarrow> byte list" where
  "addRoundKey state roundKey = map (\<lambda>i. state ! i XOR at0 roundKey i) [0..<BLOCK_SIZE]"

definition subBytes :: "byte list \<Rightarrow> byte list" where
  "subBytes state = map (\<lambda>i. S_BOX ! unat (state ! i)) [0..<BLOCK_SIZE]"

definition shiftRows :: "byte list \<Rightarrow> byte list" where
  "shiftRows state =
     map (\<lambda>i. state ! i) [0, 5, 10, 15, 4, 9, 14, 3, 8, 13, 2, 7, 12, 1, 6, 11]"

definition mixColumn :: "byte list \<Rightarrow> nat \<Rightarrow> byte list" where
  "mixColumn state col =
     (let i = col * 4; s0 = state ! i; s1 = state ! (i + 1);
          s2 = state ! (i + 2); s3 = state ! (i + 3)
      in [gmul 2 s0 XOR gmul 3 s1 XOR s2 XOR s3,
          s0 XOR gmul 2 s1 XOR gmul 3 s2 XOR s3,
          s0 XOR s1 XOR gmul 2 s2 XOR gmul 3 s3,
          gmul 3 s0 XOR s1 XOR s2 XOR gmul 2 s3])"

definition mixColumns :: "byte list \<Rightarrow> byte list" where
  "mixColumns state = concat (map (mixColumn state) [0..<4])"

definition mainRound :: "byte list list \<Rightarrow> byte list \<Rightarrow> nat \<Rightarrow> byte list" where
  "mainRound roundKeys state round =
     addRoundKey (mixColumns (shiftRows (subBytes state))) (roundKeys ! round)"

text \<open>
  \<open>encryptBlock\<close> throws on a block that is not 16 bytes long; indexing a missing round
  key is a \<open>TypeError\<close>.
\<close>

definition encryptBlock :: "byte list \<Rightarrow> byte list list \<Rightarrow> error + byte list" where
  "encryptBlock plaintext roundKeys =
     (if length plaintext \<noteq> BLOCK_SIZE then Inl (InvalidBlockSize (length plaintext))
      else if length roundKeys < NUM_ROUNDS + 1 then Inl TypeError
      else
        (let state0 = addRoundKey plaintext (roundKeys ! 0);
             state1 = foldl (mainRound roundKeys) state0 [1..<NUM_ROUNDS]
         in Inr (addRoundKey (shiftRows (subBytes state1)) (roundKeys ! NUM_ROUNDS))))"

section \<open>GHASH over GF(2^128) (crypto/ghash.ts)\<close>

text \<open>
  Class \<open>GF128\<close>: two 64-bit halves. The constructor masks both to 64 bits, which the
  word type does by itself.
\<close>

record GF128 =
  high :: "64 word"
  low :: "64 word"

definition fromBytes :: "byte list \<Rightarrow> error + GF128" where
  "fromBytes bytes =
     (if length bytes \<noteq> 16 then Inl (ExpectedSixteenBytes (length bytes))
      else Inr \<lparr> high = foldl (\<lambda>h b. push_bit 8 h OR ucast b) 0 (take 8 bytes),
                 low = foldl (\<lambda>l b. push_bit 8 l OR ucast b) 0 (drop 8 bytes) \<rparr>)"

definition toBytes :: "GF128 \<Rightarrow> byte list" where
  "toBytes x =
     map (\<lambda>i. ucast (drop_bit (8 * (7 - i)) (high x))) [0..<8] @
     map (\<lambda>i. ucast (drop_bit (8 * (7 - i)) (low x))) [0..<8]"

definition xor128 :: "GF128 \<Rightarrow> GF128 \<Rightarrow> GF128" where
  "xor128 x other = \<lparr> high = high x XOR high other, low = low x XOR low other \<rparr>"

definition getBit :: "GF128 \<Rightarrow> nat \<Rightarrow> bool" where
  "getBit x pos =
     (if pos < 64 then drop_bit (63 - pos) (high x) AND 1 = 1
      else drop_bit (127 - pos) (low x) AND 1 = 1)"

definition shiftRight :: "GF128 \<Rightarrow> GF128" where
  "shiftRight x =
     \<lparr> high = drop_bit 1 (high x),
       low = drop_bit 1 (low x) OR push_bit 63 (high x AND 1) \<rparr>"

definition R :: GF128 where
  "R = \<lparr> high = 0xe100000000000000, low = 0 \<rparr>"

definition gf128Step :: "GF128 \<Rightarrow> GF128 \<times> GF128 \<Rightarrow> nat \<Rightarrow> GF128 \<times> GF128" where
  "gf128Step X zv i =
     (let Z = (if getBit X i then xor128 (fst zv) (snd zv) else fst zv);
          lsb = (low (snd zv) AND 1 = 1);
          V = shiftRight (snd zv)
      in (Z, if lsb then xor128 V R else V))"

definition gf128Multiply :: "GF128 \<Rightarrow> GF128 \<Rightarrow> GF128" where
  "gf128Multiply X Y = fst (foldl (gf128Step X) (\<lparr> high = 0, low = 0 \<rparr>, Y) [0..<128])"

text \<open>The block loop of \<open>ghash\<close>: \<open>n\<close> blocks are left, the next one has index \<open>i\<close>.\<close>

fun ghashLoop :: "nat \<Rightarrow> nat \<Rightarrow> GF128 \<Rightarrow> byte list \<Rightarrow> GF128 \<Rightarrow> error + GF128" where
  "ghashLoop 0 i hashKey bs Y = Inr Y"
| "ghashLoop (Suc n) i hashKey bs Y =
     (case fromBytes (take 16 (drop (i * 16) bs)) of
        Inl e \<Rightarrow> Inl e
      | Inr X \<Rightarrow> ghashLoop n (Suc i) hashKey bs (gf128Multiply (xor128 Y X) hashKey))"

definition ghash :: "byte list \<Rightarrow> byte list \<Rightarrow> error + byte list" where
  "ghash H bs =
     (if length H \<noteq> 16 then Inl (InvalidHLength (length H))
      else if length bs mod 16 \<noteq> 0 then Inl (UnpaddedData (length bs))
      else
        andThen (fromBytes H) (\<lambda>hashKey.
        andThen (ghashLoop (length bs div 16) 0 hashKey bs \<lparr> high = 0, low = 0 \<rparr>) (\<lambda>Y.
        Inr (toBytes Y))))"

definition padTo16 :: "byte list \<Rightarrow> byte list" where
  "padTo16 bs =
     (let remainder = length bs mod 16
      in if remainder = 0 then bs else bs @ replicate (16 - remainder) 0)"

text \<open>Two 64-bit big-endian bit lengths; bits above the 64th are dropped by the loop.\<close>

definition createLengthBlock :: "nat \<Rightarrow> nat \<Rightarrow> byte list" where
  "createLengthBlock aadLength ciphertextLength =
     map (\<lambda>i. word_of_nat ((aadLength * 8) div 256 ^ (7 - i))) [0..<8] @
     map (\<lambda>i. word_of_nat ((ciphertextLength * 8) div 256 ^ (7 - i))) [0..<8]"

section \<open>AES-256-GCM (crypto/gcm.ts)\<close>

definition GCM_IV_SIZE :: nat where "GCM_IV_SIZE = 12"
definition GCM_TAG_SIZE :: nat where "GCM_TAG_SIZE = 16"

text \<open>
  \<open>incrementCounter\<close>: bytes 15 down to 12 are incremented until one does not wrap.
  \<open>incLoop (Suc n)\<close> is the iteration at index \<open>12 + n\<close>. On an array too short to have
  that index, \<open>result[i]++\<close> stores nothing and \<open>undefined !== 0\<close> leaves the loop.
\<close>

fun incLoop :: "nat \<Rightarrow> byte list \<Rightarrow> byte list" where
  "incLoop 0 result = result"
| "incLoop (Suc n) result =
     (let i = 12 + n
      in if i < length result
         then (let r = result[i := result ! i + 1]
               in if r ! i \<noteq> 0 then r else incLoop n r)
         else result)"

definition incrementCounter :: "byte list \<Rightarrow> byte list" where
  "incrementCounter counter = incLoop 4 counter"

definition xorBytes :: "byte list \<Rightarrow> byte list \<Rightarrow> byte list" where
  "xorBytes a b = map (\<lambda>i. a ! i XOR at0 b i) [0..<length a]"

definition generateJ0 :: "byte list \<Rightarrow> byte list \<Rightarrow> error + byte list" where
  "generateJ0 iv H =
     (if length iv = GCM_IV_SIZE then Inr (iv @ [0, 0, 0, 1])
      else ghash H (padTo16 iv @ createLengthBlock 0 (length iv)))"

text \<open>
  \<open>gctr\<close>: the full blocks, then the partial last block. \<open>gctrBlocks\<close> is the state of the
  loop with \<open>bs\<close> the data not yet processed.
\<close>

function gctrBlocks :: "byte list list \<Rightarrow> byte list \<Rightarrow> byte list \<Rightarrow> error + byte list" where
  "gctrBlocks roundKeys counter bs =
     (if length bs < BLOCK_SIZE then
        (if bs = [] then Inr []
         else case encryptBlock counter roundKeys of
                Inl e \<Rightarrow> Inl e
              | Inr keystream \<Rightarrow> Inr (map (\<lambda>i. bs ! i XOR at0 keystream i) [0..<length bs]))
      else case encryptBlock counter roundKeys of
             Inl e \<Rightarrow> Inl e
           | Inr keystream \<Rightarrow>
               (case gctrBlocks roundKeys (incrementCounter counter) (drop BLOCK_SIZE bs) of
                  Inl e \<Rightarrow> Inl e
                | Inr rest \<Rightarrow> Inr (xorBytes (take BLOCK_SIZE bs) keystream @ rest)))"
  by pat_completeness auto
termination
  by (relation "measure (\<lambda>(roundKeys, counter, bs). length bs)") (auto simp: BLOCK_SIZE_def)

definition gctr :: "byte list list \<Rightarrow> byte list \<Rightarrow> byte list \<Rightarrow> error + byte list" where
  "gctr roundKeys icb bs = (if length bs = 0 then Inr [] else gctrBlocks roundKeys icb bs)"

record GCMEncryptResult =
  ciphertext :: "byte list"
  tag :: "byte list"

text \<open>The GHASH input of both directions: \<open>pad(AAD) || pad(C) || len(AAD) || len(C)\<close>.\<close>

definition ghashInput :: "byte list \<Rightarrow> byte list \<Rightarrow> byte list" where
  "ghashInput aad c = padTo16 aad @ padTo16 c @ createLengthBlock (length aad) (length c)"

definition encrypt :: "byte list \<Rightarrow> byte list \<Rightarrow> byte list \<Rightarrow> byte list \<Rightarrow> error + GCMEncryptResult" where
  "encrypt key iv plaintext aad =
     andThen (keyExpansion key) (\<lambda>roundKeys.
     andThen (encryptBlock (replicate BLOCK_SIZE 0) roundKeys) (\<lambda>H.
     andThen (generateJ0 iv H) (\<lambda>J0.
     andThen (gctr roundKeys (incrementCounter J0) plaintext) (\<lambda>c.
     andThen (ghash H (ghashInput aad c)) (\<lambda>S.
     andThen (gctr roundKeys J0 S) (\<lambda>t.
     Inr \<lparr> ciphertext = c, tag = t \<rparr>))))))"

text \<open>The comparison loop of \<open>decrypt\<close>: all 16 positions are compared, none is skipped.\<close>

definition elemAt :: "byte list \<Rightarrow> nat \<Rightarrow> byte option" where
  "elemAt xs i = (if i < length xs then Some (xs ! i) else None)"

definition tagValid :: "byte list \<Rightarrow> byte list \<Rightarrow> bool" where
  "tagValid computedTag t = list_all (\<lambda>i. elemAt computedTag i = elemAt t i) [0..<GCM_TAG_SIZE]"

definition decrypt :: "byte list \<Rightarrow> byte list \<Rightarrow> byte list \<Rightarrow> byte list \<Rightarrow> byte list \<Rightarrow> error + byte list" where
  "decrypt key iv c t aad =
     (if length t \<noteq> GCM_TAG_SIZE then Inl (InvalidTagSize (length t))
      else
        andThen (keyExpansion key) (\<lambda>roundKeys.
        andThen (encryptBlock (replicate BLOCK_SIZE 0) roundKeys) (\<lambda>H.
        andThen (generateJ0 iv H) (\<lambda>J0.
        andThen (ghash H (ghashInput aad c)) (\<lambda>S.
        andThen (gctr roundKeys J0 S) (\<lambda>computedTag.
        if \<not> tagValid computedTag t then Inl AuthenticationFailed
        else gctr roundKeys (incrementCounter J0) c))))))"

section \<open>Vault data (client_backend/vault.ts)\<close>

text \<open>
  Class \<open>Password\<close>: the six binary fields are held decoded, as \<open>Uint8Array\<close>s.
  Identifiers are JavaScript numbers holding integers.
\<close>

record Password =
  username :: "byte list"
  usernameIV :: "byte list"
  usernameTag :: "byte list"
  passwordId :: int
  password :: "byte list"
  passwordIV :: "byte list"
  passwordTag :: "byte list"
  site :: string
  isFavorite :: bool
  noteText :: string
  category :: string
  created :: string
  updated :: string

text \<open>The object \<open>getAsObject\<close> returns and the vault file stores: binary fields in base64.\<close>

record PasswordObject =
  password_id :: int
  metadata_site :: string
  metadata_category :: string
  metadata_note :: string
  metadata_favorite :: bool
  metadata_created :: string
  metadata_updated :: string
  data_username :: string
  data_username_iv :: string
  data_username_tag :: string
  data_password :: string
  data_password_iv :: string
  data_password_tag :: string

text \<open>
  The document \<open>saveToFile\<close> writes. The three verification fields are optional: a
  document of an older version, or one written by \<open>saveToFileWithoutVersionBump\<close>, has
  none.
\<close>

record VaultDocument =
  doc_user :: string
  doc_version :: int
  doc_salt :: string
  doc_createdAt :: string
  doc_updatedAt :: string
  doc_verificationToken :: "string option"
  doc_verificationIV :: "string option"
  doc_verificationTag :: "string option"
  doc_passwords :: "PasswordObject list"

text \<open>The document \<open>uploadVault\<close> posts and \<open>importVaultData\<close> reads.\<close>

record EncVault =
  vault_iv :: string
  vault_ciphertext :: string
  vault_tag :: string

record SyncDocument =
  sync_user :: string
  sync_version :: int
  sync_salt :: string
  sync_createdAt :: string
  sync_updatedAt :: string
  sync_verificationIV :: string
  sync_verificationCiphertext :: string
  sync_verificationTag :: string
  sync_vault :: EncVault

text \<open>The fields of class \<open>Vault\<close>.\<close>

record Vault =
  user :: string
  createdAt :: string
  updatedAt :: string
  version :: int
  vaultPasswords :: "Password list"
  salt :: string
  secretKey :: string
  token :: "string option"
  verificationToken :: string
  verificationIV :: string
  verificationTag :: string
  verificationPlaintext :: string
  derivedKey :: "byte list"

section \<open>The platform\<close>

text \<open>
  Functions the sources import from outside the repository (the WASM module
  \<open>wasm_crypto\<close>, \<open>JSON\<close>, \<open>Buffer\<close>, \<open>atob\<close>, \<open>TextEncoder\<close>, \<open>TextDecoder\<close>,
  \<open>Date\<close>) are parameters of the model. SHA-256 and PBKDF2 with a 32-byte output are
  taken with their digests as 256-bit words; the sources use the digests' hexadecimal
  form, which is computed from the word below. \<open>atob\<close> gives \<open>None\<close> where it throws, and
  \<open>JSON.parse\<close> likewise.
\<close>

record Platform =
  sha256Word :: "string \<Rightarrow> 256 word"
  pbkdf2Word :: "string \<Rightarrow> string \<Rightarrow> nat \<Rightarrow> 256 word"
  uint8ArrayToBase64 :: "byte list \<Rightarrow> string"
  atob :: "string \<Rightarrow> byte list option"
  stringToUint8Array :: "string \<Rightarrow> byte list"
  uint8ArrayToString :: "byte list \<Rightarrow> string"
  stringifyVaultPasswords :: "Password list \<Rightarrow> string"
  stringifyPasswordObjects :: "PasswordObject list \<Rightarrow> string"
  stringifyEncVault :: "EncVault \<Rightarrow> string"
  parsePasswordObjects :: "string \<Rightarrow> PasswordObject list option"
  dateGetTime :: "string \<Rightarrow> int option"

text \<open>
  What the program reads and writes outside its own memory: the vault files and the key
  files (by user), the random generator and the clock (each a sequence with a position),
  and the server's tables.
\<close>

record World =
  vaultFiles :: "string \<Rightarrow> VaultDocument option"
  keyFiles :: "string \<Rightarrow> string option"
  encryptionAvailable :: bool
  randomSource :: "nat \<Rightarrow> byte"
  randomPos :: nat
  clockSource :: "nat \<Rightarrow> string"
  clockPos :: nat
  serverReachable :: bool
  serverTokens :: "string \<Rightarrow> string option"
  serverVaults :: "string \<Rightarrow> SyncDocument option"
  serverUsers :: "string \<Rightarrow> (string \<times> string) option"

definition getRandomValues :: "nat \<Rightarrow> World \<Rightarrow> byte list \<times> World" where
  "getRandomValues n w =
     (map (randomSource w) [randomPos w..<randomPos w + n], w\<lparr>randomPos := randomPos w + n\<rparr>)"

definition toISOString :: "World \<Rightarrow> string \<times> World" where
  "toISOString w = (clockSource w (clockPos w), w\<lparr>clockPos := clockPos w + 1\<rparr>)"

section \<open>Numbers\<close>

text \<open>
  The identifiers of the entries and the version of a vault are JavaScript numbers of
  integer value. A sum of two of them is the double nearest to it, the even one of two
  equally near: the sum itself up to \<open>2 ^ 53\<close> in absolute value, and beyond that a multiple
  of the spacing of the doubles there. \<open>increment\<close> is \<open>n + 1\<close> and \<open>n++\<close>.
\<close>

fun bitLength :: "nat \<Rightarrow> nat" where
  "bitLength n = (if n = 0 then 0 else Suc (bitLength (n div 2)))"

declare bitLength.simps [simp del]

definition roundToDouble :: "int \<Rightarrow> int" where
  "roundToDouble k =
     (if \<bar>k\<bar> \<le> 2 ^ 53 then k
      else
        (let e = bitLength (nat \<bar>k\<bar>) - 53;
             q = \<bar>k\<bar> div 2 ^ e; r = \<bar>k\<bar> mod 2 ^ e; half = 2 ^ (e - 1);
             m = (if r > half \<or> (r = half \<and> odd q) then q + 1 else q)
         in sgn k * (m * 2 ^ e)))"

definition increment :: "int \<Rightarrow> int" where
  "increment n = roundToDouble (n + 1)"

section \<open>Hexadecimal strings\<close>

definition hexDigit :: "nat \<Rightarrow> char" where
  "hexDigit d = (if d < 10 then char_of (48 + d) else char_of (87 + d))"

text \<open>\<open>n.toString(16)\<close> of a non-negative \<open>n\<close>.\<close>

function toHex :: "nat \<Rightarrow> string" where
  "toHex n = (if n < 16 then [hexDigit n] else toHex (n div 16) @ [hexDigit (n mod 16)])"
  by pat_completeness auto
termination
  by (relation "measure (\<lambda>n. n)") auto

definition toString16 :: "int \<Rightarrow> string" where
  "toString16 n = (if n < 0 then CHR ''-'' # toHex (nat (- n)) else toHex (nat n))"

definition hexVal :: "char \<Rightarrow> nat option" where
  "hexVal c =
     (let n = (of_char c :: nat)
      in if 48 \<le> n \<and> n \<le> 57 then Some (n - 48)
         else if 97 \<le> n \<and> n \<le> 102 then Some (n - 87)
         else if 65 \<le> n \<and> n \<le> 70 then Some (n - 55)
         else None)"

fun parseHexDigits :: "nat \<Rightarrow> string \<Rightarrow> nat option" where
  "parseHexDigits acc [] = Some acc"
| "parseHexDigits acc (c # cs) =
     (case hexVal c of None \<Rightarrow> None | Some d \<Rightarrow> parseHexDigits (16 * acc + d) cs)"

text \<open>
  \<open>BigInt("0x" + s)\<close>: white space and line terminators at the end of \<open>s\<close> are dropped (of
  the characters up to 255: tab, line feed, vertical tab, form feed, carriage return,
  space, no-break space); a \<open>SyntaxError\<close> unless what is left is a non-empty string of
  hex digits.
\<close>

definition isWhiteSpace :: "char \<Rightarrow> bool" where
  "isWhiteSpace c = ((of_char c :: nat) \<in> {9, 10, 11, 12, 13, 32, 160})"

definition bigIntOfHex :: "string \<Rightarrow> error + int" where
  "bigIntOfHex s =
     (let digits = rev (dropWhile isWhiteSpace (rev s))
      in if digits = [] then Inl SyntaxError
         else case parseHexDigits 0 digits of None \<Rightarrow> Inl SyntaxError | Some n \<Rightarrow> Inr (int n))"

definition padStart :: "nat \<Rightarrow> string \<Rightarrow> string" where
  "padStart n s = replicate (n - length s) (CHR ''0'') @ s"

text \<open>The WASM \<open>sha256\<close>: the digest as 64 hex digits.\<close>

definition sha256 :: "Platform \<Rightarrow> string \<Rightarrow> string" where
  "sha256 P s = padStart 64 (toHex (unat (sha256Word P s)))"

text \<open>\<open>hex\<close> with a leading zero when its length is odd, as \<open>H\<close> and \<open>H_pad\<close> make it.\<close>

definition evenHex :: "int \<Rightarrow> string" where
  "evenHex n = (let hex = toString16 n in if length hex mod 2 \<noteq> 0 then CHR ''0'' # hex else hex)"

definition byteHex :: "byte \<Rightarrow> string" where
  "byteHex b = [hexDigit (unat b div 16), hexDigit (unat b mod 16)]"

text \<open>\<open>Buffer.toString('hex')\<close>.\<close>

definition bytesToHex :: "byte list \<Rightarrow> string" where
  "bytesToHex bs = concat (map byteHex bs)"

section \<open>SRP-6a (shared/src/srp.ts)\<close>

definition N :: int where
  "N = 0xAC6BDB41324A9A9BF166DE5E1389582FAF72B6651987EE07FC3192943DB56050A37329CBB4A099ED8193E0757767A13DD52312AB4B03310DCD7F48A9DA04FD50E8083969EDB767B0CF6095179A163AB3661A05FBD5FAAAE82918A9962F0B93B855F97993EC975EEAA80D740ADBF4D6DB71577363ED7557A605FC81B2976D98DD719307281B7BB2C07971BA8675F5CF5D0E576B429A44CA431F75F6A931881B94AC25B2822B7E1B108929A88C1544DD7D3B5198AB29930D91D2702CB46820257B7B132C3A5576C71708A899C6A3644917C9B1093153545A25345914614A797A7C6B7B4B74044A5405608674F7565349282D20A10243166BE5E744116041C83F30C665672013"

definition g :: int where "g = 0x02"

text \<open>The \<open>%\<close> and \<open>/\<close> of \<open>BigInt\<close> truncate towards zero.\<close>

definition jsRem :: "int \<Rightarrow> int \<Rightarrow> int" where
  "jsRem a b = sgn a * (\<bar>a\<bar> mod \<bar>b\<bar>)"

definition jsDiv :: "int \<Rightarrow> int \<Rightarrow> int" where
  "jsDiv a b = sgn a * sgn b * (\<bar>a\<bar> div \<bar>b\<bar>)"

function modPowLoop :: "int \<Rightarrow> int \<Rightarrow> int \<Rightarrow> int \<Rightarrow> int" where
  "modPowLoop res base exp m =
     (if exp > 0
      then modPowLoop (if jsRem exp 2 = 1 then jsRem (res * base) m else res)
                      (jsRem (base * base) m) (jsDiv exp 2) m
      else res)"
  by pat_completeness auto
termination
  by (relation "measure (\<lambda>(res, base, exp, m). nat exp)") (auto simp: jsDiv_def)

definition modPow :: "int \<Rightarrow> int \<Rightarrow> int \<Rightarrow> int" where
  "modPow base exp m = modPowLoop 1 (jsRem base m) exp m"

text \<open>
  \<open>H\<close> on \<open>BigInt\<close> arguments, the only ones the callers pass: the even-length hex forms
  are decoded, concatenated and printed as hex again, which the WASM \<open>sha256\<close> hashes.
\<close>

definition H :: "Platform \<Rightarrow> int list \<Rightarrow> error + int" where
  "H P args = bigIntOfHex (sha256 P (concat (map evenHex args)))"

text \<open>\<open>H_pad(num).toString('hex')\<close>: left-padded with zero bytes to 256 bytes.\<close>

definition H_pad_hex :: "int \<Rightarrow> string" where
  "H_pad_hex num =
     (let hex = evenHex num
      in if length hex div 2 < 256 then replicate (2 * (256 - length hex div 2)) (CHR ''0'') @ hex
         else hex)"

text \<open>\<open>initSRP\<close> sets the module variable \<open>k\<close>, which the functions below read.\<close>

definition initSRP :: "Platform \<Rightarrow> error + int" where
  "initSRP P = H P [N, g]"

text \<open>
  \<open>SRPClient.generateRegistration\<close>, with the 16 random bytes of the salt as its
  argument \<open>saltBytes\<close>.
\<close>

definition generateRegistration :: "Platform \<Rightarrow> byte list \<Rightarrow> string \<Rightarrow> error + string \<times> string" where
  "generateRegistration P saltBytes pw =
     (let salt_hex = bytesToHex saltBytes
      in andThen (bigIntOfHex (sha256 P (salt_hex @ pw))) (\<lambda>x.
         Inr (salt_hex, toString16 (modPow g x N))))"

text \<open>
  \<open>SRPClient.generateEphemeral\<close> draws again while \<open>A\<close> is 0 modulo \<open>N\<close>; \<open>draws i\<close> is
  the \<open>i\<close>-th result of \<open>randomBigInt\<close>, 32 random bytes.
\<close>

partial_function (option) clientGenerateEphemeral :: "(nat \<Rightarrow> 256 word) \<Rightarrow> nat \<Rightarrow> (string \<times> string) option" where
  "clientGenerateEphemeral draws i =
     (let a_val = uint (draws i); A_val = modPow g a_val N
      in if jsRem A_val N = 0 then clientGenerateEphemeral draws (Suc i)
         else Some (toString16 a_val, toString16 A_val))"

function addUntilNonNegative :: "int \<Rightarrow> int" where
  "addUntilNonNegative base = (if base < 0 then addUntilNonNegative (base + N) else base)"
  by pat_completeness auto
termination
  by (relation "measure (\<lambda>base. nat (- base))") (auto simp: N_def)

text \<open>\<open>SRPClient.computeSession\<close>; the result is \<open>(K, M1, M2)\<close>.\<close>

definition computeSession ::
  "Platform \<Rightarrow> int \<Rightarrow> string \<Rightarrow> string \<Rightarrow> string \<Rightarrow> string \<Rightarrow> string \<Rightarrow> error + string \<times> string \<times> string" where
  "computeSession P k salt_hex uname pw a_hex B_hex =
     andThen (bigIntOfHex a_hex) (\<lambda>a.
     andThen (bigIntOfHex B_hex) (\<lambda>B.
     if jsRem B N = 0 then Inl SafetyCheckB
     else
       (let A = modPow g a N
        in andThen (H P [A, B]) (\<lambda>u.
           andThen (bigIntOfHex (sha256 P (salt_hex @ pw))) (\<lambda>x.
           (let v = modPow g x N;
                base = addUntilNonNegative (B - jsRem (k * v) N);
                exp = a + u * x;
                S = modPow base exp N;
                K_hex = sha256 P (H_pad_hex S);
                M1 = sha256 P (toString16 A @ toString16 B @ K_hex);
                M2 = sha256 P (toString16 A @ M1 @ K_hex)
            in Inr (K_hex, M1, M2)))))))"

text \<open>\<open>SRPServer.generateEphemeral\<close>, with the random \<open>b_val\<close> as an argument; the result is \<open>(b, B)\<close>.\<close>

definition serverGenerateEphemeral :: "int \<Rightarrow> string \<Rightarrow> int \<Rightarrow> error + string \<times> string" where
  "serverGenerateEphemeral k verifier b_val =
     andThen (bigIntOfHex verifier) (\<lambda>v.
     (let gb = modPow g b_val N;
          kv = jsRem (k * v) N;
          B_val = jsRem (kv + gb) N
      in Inr (toString16 b_val, toString16 B_val)))"

text \<open>\<open>SRPServer.verifySession\<close>; the result is \<open>(K, M2)\<close>.\<close>

definition verifySession ::
  "Platform \<Rightarrow> int \<Rightarrow> string \<Rightarrow> string \<Rightarrow> string \<Rightarrow> string \<Rightarrow> string \<Rightarrow> string \<Rightarrow> error + string \<times> string" where
  "verifySession P k uname salt_hex verifier A_hex b_hex M1_client =
     andThen (bigIntOfHex A_hex) (\<lambda>A.
     andThen (bigIntOfHex b_hex) (\<lambda>b.
     andThen (bigIntOfHex verifier) (\<lambda>v.
     if jsRem A N = 0 then Inl SafetyCheckA
     else
       (let gb = modPow g b N;
            kv = jsRem (k * v) N;
            B = jsRem (kv + gb) N
        in andThen (H P [A, B]) (\<lambda>u.
           (let vu = modPow v u N;
                base = jsRem (A * vu) N;
                S = modPow base b N;
                K_hex = sha256 P (H_pad_hex S);
                expectedM1 = sha256 P (toString16 A @ toString16 B @ K_hex)
            in if M1_client \<noteq> expectedM1 then Inl InvalidProof
               else Inr (K_hex, sha256 P (toString16 A @ M1_client @ K_hex))))))))"

section \<open>The vault engine (client_backend/vault.ts)\<close>

text \<open>
  A method of class \<open>Vault\<close> takes the object's fields and the world and returns both as
  the method leaves them, with the error it threw, if any: what was assigned before a
  \<open>throw\<close> stays assigned.
\<close>

type_synonym outcome = "error option \<times> Vault \<times> World"

definition thenDo :: "outcome \<Rightarrow> (Vault \<Rightarrow> World \<Rightarrow> outcome) \<Rightarrow> outcome" where
  "thenDo r f = (case r of (Some e, v, w) \<Rightarrow> (Some e, v, w) | (None, v, w) \<Rightarrow> f v w)"

definition base64ToUint8Array :: "Platform \<Rightarrow> string \<Rightarrow> error + byte list" where
  "base64ToUint8Array P s = (case atob P s of None \<Rightarrow> Inl InvalidCharacter | Some bs \<Rightarrow> Inr bs)"

definition generateRandomIV :: "World \<Rightarrow> byte list \<times> World" where
  "generateRandomIV w = getRandomValues 16 w"

definition generateRandomBytes :: "Platform \<Rightarrow> nat \<Rightarrow> World \<Rightarrow> string \<times> World" where
  "generateRandomBytes P n w =
     (let r = getRandomValues n w in (uint8ArrayToBase64 P (fst r), snd r))"

text \<open>The 32 bytes of the derived key, most significant first.\<close>

definition keyBytes :: "256 word \<Rightarrow> byte list" where
  "keyBytes k = map (\<lambda>i. ucast (drop_bit (8 * (31 - i)) k)) [0..<32]"

definition deriveKey :: "Platform \<Rightarrow> string \<Rightarrow> string \<Rightarrow> string \<Rightarrow> byte list" where
  "deriveKey P s masterPassword sk = keyBytes (pbkdf2Word P (masterPassword @ sk) s 600000)"

definition storeSecretKey :: "string \<Rightarrow> string \<Rightarrow> World \<Rightarrow> World" where
  "storeSecretKey u plaintext w =
     (if \<not> encryptionAvailable w then w else w\<lparr>keyFiles := (keyFiles w)(u \<mapsto> plaintext)\<rparr>)"

definition getSecretKey :: "string \<Rightarrow> World \<Rightarrow> string option" where
  "getSecretKey u w = (if encryptionAvailable w then keyFiles w u else None)"

subsection \<open>Class Password\<close>

text \<open>
  The constructor, with its arguments as one object in the layout of \<open>getAsObject\<close>:
  \<open>new Password(Number(key.password_id), key.data.username, ...)\<close> is \<open>newPassword P key\<close>.
  The six base64 arguments are decoded in the order of the constructor's assignments.
\<close>

definition newPassword :: "Platform \<Rightarrow> PasswordObject \<Rightarrow> error + Password" where
  "newPassword P key =
     andThen (base64ToUint8Array P (data_username key)) (\<lambda>u'.
     andThen (base64ToUint8Array P (data_username_iv key)) (\<lambda>uIV'.
     andThen (base64ToUint8Array P (data_username_tag key)) (\<lambda>uTag'.
     andThen (base64ToUint8Array P (data_password key)) (\<lambda>pw'.
     andThen (base64ToUint8Array P (data_password_iv key)) (\<lambda>pwIV'.
     andThen (base64ToUint8Array P (data_password_tag key)) (\<lambda>pwTag'.
     Inr \<lparr> username = u', usernameIV = uIV', usernameTag = uTag',
           passwordId = password_id key,
           password = pw', passwordIV = pwIV', passwordTag = pwTag',
           site = metadata_site key, isFavorite = metadata_favorite key,
           noteText = metadata_note key, category = metadata_category key,
           created = metadata_created key, updated = metadata_updated key \<rparr>))))))"

definition getAsObject :: "Platform \<Rightarrow> Password \<Rightarrow> PasswordObject" where
  "getAsObject P p =
     \<lparr> password_id = passwordId p,
       metadata_site = site p, metadata_category = category p, metadata_note = noteText p,
       metadata_favorite = isFavorite p, metadata_created = created p,
       metadata_updated = updated p,
       data_username = uint8ArrayToBase64 P (username p),
       data_username_iv = uint8ArrayToBase64 P (usernameIV p),
       data_username_tag = uint8ArrayToBase64 P (usernameTag p),
       data_password = uint8ArrayToBase64 P (password p),
       data_password_iv = uint8ArrayToBase64 P (passwordIV p),
       data_password_tag = uint8ArrayToBase64 P (passwordTag p) \<rparr>"

text \<open>What \<open>getAccountInfo\<close> returns; the identifier is kept as the number it prints.\<close>

record AccountInfo =
  info_id :: int
  info_site :: string
  info_username :: string
  info_password :: string
  info_note :: string
  info_category :: string
  info_favorite :: bool
  info_createdAt :: string
  info_updatedAt :: string

definition getAccountInfo :: "Platform \<Rightarrow> byte list \<Rightarrow> Password \<Rightarrow> error + AccountInfo" where
  "getAccountInfo P key p =
     andThen (decrypt key (usernameIV p) (username p) (usernameTag p) []) (\<lambda>u.
     andThen (decrypt key (passwordIV p) (password p) (passwordTag p) []) (\<lambda>pw.
     Inr \<lparr> info_id = passwordId p, info_site = site p,
           info_username = uint8ArrayToString P u, info_password = uint8ArrayToString P pw,
           info_note = noteText p, info_category = category p, info_favorite = isFavorite p,
           info_createdAt = created p, info_updatedAt = updated p \<rparr>))"

subsection \<open>Construction, loading and saving\<close>

text \<open>
  The field initialisers draw the salt and the secret key, then the constructor reads
  the clock twice.
\<close>

definition newVault :: "Platform \<Rightarrow> string \<Rightarrow> World \<Rightarrow> Vault \<times> World" where
  "newVault P u w0 =
     (let r1 = generateRandomBytes P 32 w0;
          r2 = generateRandomBytes P 32 (snd r1);
          t1 = toISOString (snd r2);
          t2 = toISOString (snd t1)
      in (\<lparr> user = u, createdAt = fst t1, updatedAt = fst t2, version = 1,
             vaultPasswords = [], salt = fst r1, secretKey = fst r2, token = None,
             verificationToken = [], verificationIV = [], verificationTag = [],
             verificationPlaintext = [], derivedKey = [] \<rparr>, snd t2))"

definition setToken :: "string \<Rightarrow> Vault \<Rightarrow> Vault" where
  "setToken t v = v\<lparr>token := Some t\<rparr>"

text \<open>\<open>if (!this.token)\<close>: no token, or the empty string.\<close>

definition heldToken :: "Vault \<Rightarrow> string option" where
  "heldToken v = (case token v of None \<Rightarrow> None | Some t \<Rightarrow> if t = [] then None else Some t)"

definition setVerificationToken :: "Platform \<Rightarrow> Vault \<Rightarrow> World \<Rightarrow> outcome" where
  "setVerificationToken P v w =
     (let r = generateRandomIV w; iv = fst r; w1 = snd r
      in case encrypt (derivedKey v) iv (stringToUint8Array P (verificationPlaintext v)) [] of
           Inl e \<Rightarrow> (Some e, v, w1)
         | Inr encrypted \<Rightarrow>
             (None,
              v\<lparr>verificationToken := uint8ArrayToBase64 P (ciphertext encrypted),
                verificationIV := uint8ArrayToBase64 P iv,
                verificationTag := uint8ArrayToBase64 P (tag encrypted)\<rparr>,
              w1))"

definition userData :: "Platform \<Rightarrow> Vault \<Rightarrow> VaultDocument" where
  "userData P v =
     \<lparr> doc_user = user v, doc_version = version v, doc_salt = salt v,
       doc_createdAt = createdAt v, doc_updatedAt = updatedAt v,
       doc_verificationToken = Some (verificationToken v),
       doc_verificationIV = Some (verificationIV v),
       doc_verificationTag = Some (verificationTag v),
       doc_passwords = map (getAsObject P) (vaultPasswords v) \<rparr>"

definition writeVaultFile :: "VaultDocument \<Rightarrow> string \<Rightarrow> World \<Rightarrow> World" where
  "writeVaultFile d u w = w\<lparr>vaultFiles := (vaultFiles w)(u \<mapsto> d)\<rparr>"

definition saveToFile :: "Platform \<Rightarrow> Vault \<Rightarrow> World \<Rightarrow> outcome" where
  "saveToFile P v w =
     (let v1 = v\<lparr>version := increment (version v)\<rparr>;
          t = toISOString w;
          v2 = v1\<lparr>updatedAt := fst t\<rparr>;
          v3 = v2\<lparr>verificationPlaintext :=
                     sha256 P (stringifyVaultPasswords P (vaultPasswords v2))\<rparr>
      in thenDo (setVerificationToken P v3 (snd t))
           (\<lambda>v4 w4. (None, v4, writeVaultFile (userData P v4) (user v4) w4)))"

text \<open>\<open>saveToFileWithoutVersionBump\<close>: no version change, and no verification fields.\<close>

definition saveToFileWithoutVersionBump :: "Platform \<Rightarrow> Vault \<Rightarrow> World \<Rightarrow> World" where
  "saveToFileWithoutVersionBump P v w =
     writeVaultFile
       ((userData P v)\<lparr>doc_verificationToken := None, doc_verificationIV := None,
                       doc_verificationTag := None\<rparr>)
       (user v) w"

text \<open>The loop that pushes one \<open>Password\<close> per stored object; a constructor that throws ends it.\<close>

fun pushPasswords :: "Platform \<Rightarrow> PasswordObject list \<Rightarrow> Vault \<Rightarrow> error option \<times> Vault" where
  "pushPasswords P [] v = (None, v)"
| "pushPasswords P (key # keys) v =
     (case newPassword P key of
        Inl e \<Rightarrow> (Some e, v)
      | Inr p \<Rightarrow> pushPasswords P keys (v\<lparr>vaultPasswords := vaultPasswords v @ [p]\<rparr>))"

text \<open>
  \<open>createFromFile\<close>, on a file that holds a document with the fields every writer of this
  program writes; the verification fields may be absent.
\<close>

definition createFromFile :: "Platform \<Rightarrow> Vault \<Rightarrow> World \<Rightarrow> error option \<times> Vault" where
  "createFromFile P v w =
     (case vaultFiles w (user v) of
        None \<Rightarrow> (None, v)
      | Some content \<Rightarrow>
          (let v1 = v\<lparr>createdAt := doc_createdAt content,
                      updatedAt := (if doc_updatedAt content = [] then doc_createdAt content
                                    else doc_updatedAt content),
                      version := doc_version content,
                      salt := doc_salt content\<rparr>;
               r = pushPasswords P (doc_passwords content) v1
           in case fst r of
                Some e \<Rightarrow> (Some e, snd r)
              | None \<Rightarrow>
                  (None,
                   case doc_verificationToken content of
                     None \<Rightarrow> snd r
                   | Some t \<Rightarrow>
                       (snd r)\<lparr>verificationToken := t,
                               verificationIV := (case doc_verificationIV content of
                                                    None \<Rightarrow> [] | Some s \<Rightarrow> s),
                               verificationTag := (case doc_verificationTag content of
                                                     None \<Rightarrow> [] | Some s \<Rightarrow> s)\<rparr>)))"

text \<open>\<open>verifyPassword\<close>: anything thrown inside the \<open>try\<close> gives \<open>false\<close>.\<close>

definition verifyPassword :: "Platform \<Rightarrow> Vault \<Rightarrow> bool" where
  "verifyPassword P v =
     (if verificationToken v = [] \<or> verificationIV v = [] \<or> verificationTag v = [] then True
      else
        (case andThen (base64ToUint8Array P (verificationIV v)) (\<lambda>iv.
              andThen (base64ToUint8Array P (verificationToken v)) (\<lambda>c.
              andThen (base64ToUint8Array P (verificationTag v)) (\<lambda>t.
              decrypt (derivedKey v) iv c t []))) of
           Inl e \<Rightarrow> False
         | Inr decrypted \<Rightarrow>
             uint8ArrayToString P decrypted =
               sha256 P (stringifyVaultPasswords P (vaultPasswords v))))"

text \<open>
  \<open>factory\<close>. The test \<open>this.derivedKey != new Uint8Array()\<close> compares two distinct
  objects and is always true, so the key is derived on every path.
\<close>

definition factory :: "Platform \<Rightarrow> string \<Rightarrow> bool \<Rightarrow> Vault \<Rightarrow> World \<Rightarrow> outcome" where
  "factory P masterPassword isNew v0 w0 =
     thenDo
       (if isNew then
          thenDo
            (saveToFile P
               (v0\<lparr>derivedKey := deriveKey P (salt v0) masterPassword (secretKey v0)\<rparr>) w0)
            (\<lambda>v w. (None, v, storeSecretKey (user v) (secretKey v) w))
        else
          (None,
           (case getSecretKey (user v0) w0 of
              None \<Rightarrow> v0
            | Some sk \<Rightarrow> if sk = [] then v0 else v0\<lparr>secretKey := sk\<rparr>),
           w0))
       (\<lambda>v1 w1.
          (let r = createFromFile P v1 w1
           in case fst r of
                Some e \<Rightarrow> (Some e, snd r, w1)
              | None \<Rightarrow>
                  (let v3 = (snd r)\<lparr>derivedKey :=
                                       deriveKey P (salt (snd r)) masterPassword
                                         (secretKey (snd r))\<rparr>
                   in if \<not> verifyPassword P v3 then (Some PasswordVerificationFailed, v3, w1)
                      else saveToFile P v3 w1)))"

subsection \<open>Synchronisation\<close>

datatype 'a response = FetchFailed | Status nat | Ok200 'a

text \<open>The server's \<open>GET /vault\<close> and \<open>POST /vault\<close> (server/src/index.ts), as \<open>fetch\<close> sees them.\<close>

definition getVault :: "World \<Rightarrow> string \<Rightarrow> SyncDocument response" where
  "getVault w t =
     (if \<not> serverReachable w then FetchFailed
      else case serverTokens w t of
             None \<Rightarrow> Status 401
           | Some uname \<Rightarrow>
               (case serverVaults w uname of None \<Rightarrow> Status 404 | Some d \<Rightarrow> Ok200 d))"

definition postVault :: "World \<Rightarrow> string \<Rightarrow> SyncDocument \<Rightarrow> World option" where
  "postVault w t d =
     (if \<not> serverReachable w then None
      else case serverTokens w t of
             None \<Rightarrow> Some w
           | Some uname \<Rightarrow> Some (w\<lparr>serverVaults := (serverVaults w)(uname \<mapsto> d)\<rparr>))"

text \<open>\<open>POST /password\<close>: \<open>None\<close> when \<open>fetch\<close> throws, else \<open>response.ok\<close> and the server's state.\<close>

definition postPassword :: "World \<Rightarrow> string \<Rightarrow> string \<Rightarrow> string \<Rightarrow> (bool \<times> World) option" where
  "postPassword w t s verifier =
     (if \<not> serverReachable w then None
      else case serverTokens w t of
             None \<Rightarrow> Some (False, w)
           | Some uname \<Rightarrow>
               if s = [] \<or> verifier = [] then Some (False, w)
               else (case serverUsers w uname of
                       None \<Rightarrow> Some (False, w)
                     | Some old \<Rightarrow>
                         Some (True, w\<lparr>serverUsers := (serverUsers w)(uname \<mapsto> (s, verifier))\<rparr>)))"

definition uploadVault :: "Platform \<Rightarrow> Vault \<Rightarrow> World \<Rightarrow> outcome" where
  "uploadVault P v w =
     (case heldToken v of
        None \<Rightarrow> (None, v, w)
      | Some t \<Rightarrow>
          (let passwords = map (getAsObject P) (vaultPasswords v);
               r1 = generateRandomIV w; ivPass = fst r1
           in case encrypt (derivedKey v) ivPass
                     (stringToUint8Array P (stringifyPasswordObjects P passwords)) [] of
                Inl e \<Rightarrow> (Some e, v, snd r1)
              | Inr encPassword \<Rightarrow>
                  (let vaultEncData =
                         \<lparr> vault_iv = uint8ArrayToBase64 P ivPass,
                           vault_ciphertext = uint8ArrayToBase64 P (ciphertext encPassword),
                           vault_tag = uint8ArrayToBase64 P (tag encPassword) \<rparr>;
                       verificationVaultSync = sha256 P (stringifyEncVault P vaultEncData);
                       r2 = generateRandomIV (snd r1); ivVer = fst r2
                   in case encrypt (derivedKey v) ivVer
                             (stringToUint8Array P verificationVaultSync) [] of
                        Inl e \<Rightarrow> (Some e, v, snd r2)
                      | Inr encVer \<Rightarrow>
                          (let vaultData =
                                 \<lparr> sync_user = user v, sync_version = version v,
                                   sync_salt = salt v, sync_createdAt = createdAt v,
                                   sync_updatedAt = updatedAt v,
                                   sync_verificationIV = uint8ArrayToBase64 P ivVer,
                                   sync_verificationCiphertext =
                                     uint8ArrayToBase64 P (ciphertext encVer),
                                   sync_verificationTag = uint8ArrayToBase64 P (tag encVer),
                                   sync_vault = vaultEncData \<rparr>
                           in case postVault (snd r2) t vaultData of
                                None \<Rightarrow> (Some FetchError, v, snd r2)
                              | Some w3 \<Rightarrow> (None, v, w3)))))"

text \<open>\<open>decrypt\<close> on three base64 fields, decoded in the order IV, ciphertext, tag.\<close>

definition decryptFields :: "Platform \<Rightarrow> byte list \<Rightarrow> string \<Rightarrow> string \<Rightarrow> string \<Rightarrow> error + byte list" where
  "decryptFields P key iv64 c64 t64 =
     andThen (base64ToUint8Array P iv64) (\<lambda>iv.
     andThen (base64ToUint8Array P c64) (\<lambda>c.
     andThen (base64ToUint8Array P t64) (\<lambda>t.
     decrypt key iv c t [])))"

text \<open>
  \<open>importVaultData\<close>. Its first two statements assign \<open>updatedAt\<close> and \<open>salt\<close>; the later
  test \<open>data.salt !== this.salt\<close> is then always false.
\<close>

definition importVaultData :: "Platform \<Rightarrow> SyncDocument \<Rightarrow> Vault \<Rightarrow> error option \<times> Vault" where
  "importVaultData P d v =
     (let v1 = v\<lparr>updatedAt := sync_updatedAt d, salt := sync_salt d\<rparr>;
          encVault = sync_vault d
      in case decryptFields P (derivedKey v1) (sync_verificationIV d)
                (sync_verificationCiphertext d) (sync_verificationTag d) of
           Inl e \<Rightarrow> (Some e, v1)
         | Inr verification \<Rightarrow>
             if uint8ArrayToString P verification \<noteq> sha256 P (stringifyEncVault P encVault)
             then (Some RemoteImportVerificationFailed, v1)
             else
               (case decryptFields P (derivedKey v1) (vault_iv encVault)
                       (vault_ciphertext encVault) (vault_tag encVault) of
                  Inl e \<Rightarrow> (Some e, v1)
                | Inr plain \<Rightarrow>
                    (case parsePasswordObjects P (uint8ArrayToString P plain) of
                       None \<Rightarrow> (Some SyntaxError, v1)
                     | Some passwords \<Rightarrow>
                         pushPasswords P passwords (v1\<lparr>vaultPasswords := []\<rparr>))))"

text \<open>\<open>a > b\<close> on two \<open>getTime()\<close> results, \<open>None\<close> being \<open>NaN\<close>.\<close>

definition laterThan :: "int option \<Rightarrow> int option \<Rightarrow> bool" where
  "laterThan a b = (case a of None \<Rightarrow> False | Some x \<Rightarrow> (case b of None \<Rightarrow> False | Some y \<Rightarrow> x > y))"

definition caught :: "outcome \<Rightarrow> Vault \<times> World" where
  "caught r = (fst (snd r), snd (snd r))"

text \<open>\<open>sync\<close>: whatever is thrown inside its \<open>try\<close> is logged and dropped.\<close>

definition sync :: "Platform \<Rightarrow> Vault \<Rightarrow> World \<Rightarrow> Vault \<times> World" where
  "sync P v w =
     (case heldToken v of
        None \<Rightarrow> (v, w)
      | Some t \<Rightarrow>
          (case getVault w t of
             FetchFailed \<Rightarrow> (v, w)
           | Status s \<Rightarrow> if s = 404 then caught (uploadVault P v w) else (v, w)
           | Ok200 remoteData \<Rightarrow>
               (let remoteTime = dateGetTime P (sync_updatedAt remoteData);
                    localTime = dateGetTime P (updatedAt v)
                in if laterThan remoteTime localTime then
                     (let r = importVaultData P remoteData v
                      in case fst r of
                           Some e \<Rightarrow> (snd r, w)
                         | None \<Rightarrow> caught (saveToFile P (snd r) w))
                   else if laterThan localTime remoteTime then caught (uploadVault P v w)
                   else (v, w))))"

text \<open>\<open>a <= b\<close> on two dates, \<open>None\<close> being an invalid date: false when either is invalid.\<close>

definition notLaterThan :: "int option \<Rightarrow> int option \<Rightarrow> bool" where
  "notLaterThan a b =
     (case a of None \<Rightarrow> False | Some x \<Rightarrow> (case b of None \<Rightarrow> False | Some y \<Rightarrow> x \<le> y))"

text \<open>
  \<open>mergeFromRemote\<close> on the parsed document (\<open>None\<close> when \<open>JSON.parse\<close> throws); the
  result is the method's boolean. It returns early only when \<open>remoteDate <= localDate\<close>
  holds, so it merges when a date is invalid.
\<close>

definition mergeFromRemote :: "Platform \<Rightarrow> VaultDocument option \<Rightarrow> Vault \<Rightarrow> World \<Rightarrow> bool \<times> Vault \<times> World" where
  "mergeFromRemote P remote v w =
     (case remote of
        None \<Rightarrow> (False, v, w)
      | Some remoteVault \<Rightarrow>
          if notLaterThan (dateGetTime P (doc_updatedAt remoteVault)) (dateGetTime P (updatedAt v))
          then (False, v, w)
          else
            (let v1 = v\<lparr>createdAt := doc_createdAt remoteVault,
                        updatedAt := doc_updatedAt remoteVault,
                        version := doc_version remoteVault,
                        vaultPasswords := []\<rparr>;
                 r = pushPasswords P (doc_passwords remoteVault) v1
             in case fst r of
                  Some e \<Rightarrow> (False, snd r, w)
                | None \<Rightarrow> (True, snd r, saveToFileWithoutVersionBump P (snd r) w)))"

subsection \<open>Adding and removing entries\<close>

text \<open>\<open>addPassword\<close> up to and including the \<open>push\<close>.\<close>

definition addPasswordLocal ::
  "Platform \<Rightarrow> string \<Rightarrow> string \<Rightarrow> string \<Rightarrow> string \<Rightarrow> string \<Rightarrow> bool \<Rightarrow> Vault \<Rightarrow> World \<Rightarrow> outcome" where
  "addPasswordLocal P usr pw st nt cat fav v w =
     (let r1 = generateRandomIV w; ivPass = fst r1;
          r2 = generateRandomIV (snd r1); ivUser = fst r2
      in case encrypt (derivedKey v) ivPass (stringToUint8Array P pw) [] of
           Inl e \<Rightarrow> (Some e, v, snd r2)
         | Inr encPassword \<Rightarrow>
             (case encrypt (derivedKey v) ivUser (stringToUint8Array P usr) [] of
                Inl e \<Rightarrow> (Some e, v, snd r2)
              | Inr encUser \<Rightarrow>
                  (let t0 = toISOString (snd r2);
                       v1 = v\<lparr>updatedAt := fst t0\<rparr>;
                       passId = (if length (vaultPasswords v1) > 0
                                 then increment (passwordId (last (vaultPasswords v1))) else 0);
                       t1 = toISOString (snd t0);
                       t2 = toISOString (snd t1)
                   in case newPassword P
                             \<lparr> password_id = passId,
                               metadata_site = st, metadata_category = cat,
                               metadata_note = nt, metadata_favorite = fav,
                               metadata_created = fst t1, metadata_updated = fst t2,
                               data_username = uint8ArrayToBase64 P (ciphertext encUser),
                               data_username_iv = uint8ArrayToBase64 P ivUser,
                               data_username_tag = uint8ArrayToBase64 P (tag encUser),
                               data_password = uint8ArrayToBase64 P (ciphertext encPassword),
                               data_password_iv = uint8ArrayToBase64 P ivPass,
                               data_password_tag = uint8ArrayToBase64 P (tag encPassword) \<rparr> of
                        Inl e \<Rightarrow> (Some e, v1, snd t2)
                      | Inr p \<Rightarrow>
                          (None, v1\<lparr>vaultPasswords := vaultPasswords v1 @ [p]\<rparr>, snd t2))))"

definition addPassword ::
  "Platform \<Rightarrow> string \<Rightarrow> string \<Rightarrow> string \<Rightarrow> string \<Rightarrow> string \<Rightarrow> bool \<Rightarrow> Vault \<Rightarrow> World \<Rightarrow> outcome" where
  "addPassword P usr pw st nt cat fav v w =
     thenDo (addPasswordLocal P usr pw st nt cat fav v w) (\<lambda>v1 w1.
     thenDo (saveToFile P v1 w1) (\<lambda>v2 w2.
     (let r = sync P v2 w2 in (None, fst r, snd r))))"

text \<open>
  \<open>Array.prototype.splice(start, 1)\<close>: a negative start counts from the end, a start
  past the end removes nothing.
\<close>

definition splice1 :: "int \<Rightarrow> 'a list \<Rightarrow> 'a list" where
  "splice1 start xs =
     (let len = int (length xs);
          actualStart = (if start < 0 then max (len + start) 0 else min start len)
      in take (nat actualStart) xs @ drop (nat actualStart + 1) xs)"

text \<open>The loop of \<open>removePassword\<close>, at index \<open>i\<close>.\<close>

function removeLoop :: "int \<Rightarrow> nat \<Rightarrow> Password list \<Rightarrow> Password list" where
  "removeLoop ident i ps =
     (if i < length ps
      then (if passwordId (ps ! i) = ident then removeLoop ident (i + 1) (splice1 ident ps)
            else removeLoop ident (i + 1) ps)
      else ps)"
  by pat_completeness auto
termination
  by (relation "measure (\<lambda>(ident, i, ps). length ps - i)") (auto simp: splice1_def Let_def)

text \<open>
  \<open>removePassword\<close> does not await \<open>saveToFile\<close> and \<open>sync\<close>: an error of the save is not
  thrown to the caller. The two run here one after the other.
\<close>

definition removePassword :: "Platform \<Rightarrow> int \<Rightarrow> Vault \<Rightarrow> World \<Rightarrow> Vault \<times> World" where
  "removePassword P ident v w =
     (let v1 = v\<lparr>vaultPasswords := removeLoop ident 0 (vaultPasswords v)\<rparr>;
          t = toISOString w;
          v2 = v1\<lparr>updatedAt := fst t\<rparr>;
          saved = caught (saveToFile P v2 (snd t))
      in sync P (fst saved) (snd saved))"

subsection \<open>Changing the master password\<close>

fun mapResult :: "('a \<Rightarrow> error + 'b) \<Rightarrow> 'a list \<Rightarrow> error + 'b list" where
  "mapResult f [] = Inr []"
| "mapResult f (x # xs) =
     andThen (f x) (\<lambda>y. andThen (mapResult f xs) (\<lambda>ys. Inr (y # ys)))"

text \<open>The re-encryption loop of \<open>changeMasterPassword\<close>.\<close>

fun reencrypt :: "Platform \<Rightarrow> byte list \<Rightarrow> AccountInfo list \<Rightarrow> Vault \<Rightarrow> World \<Rightarrow> outcome" where
  "reencrypt P newKey [] v w = (None, v, w)"
| "reencrypt P newKey (dp # dps) v w =
     (let r1 = generateRandomIV w; ivPass = fst r1;
          r2 = generateRandomIV (snd r1); ivUser = fst r2
      in case encrypt newKey ivPass (stringToUint8Array P (info_password dp)) [] of
           Inl e \<Rightarrow> (Some e, v, snd r2)
         | Inr encPassword \<Rightarrow>
             (case encrypt newKey ivUser (stringToUint8Array P (info_username dp)) [] of
                Inl e \<Rightarrow> (Some e, v, snd r2)
              | Inr encUser \<Rightarrow>
                  (case newPassword P
                          \<lparr> password_id = info_id dp,
                            metadata_site = info_site dp, metadata_category = info_category dp,
                            metadata_note = info_note dp, metadata_favorite = info_favorite dp,
                            metadata_created = info_createdAt dp,
                            metadata_updated = info_updatedAt dp,
                            data_username = uint8ArrayToBase64 P (ciphertext encUser),
                            data_username_iv = uint8ArrayToBase64 P ivUser,
                            data_username_tag = uint8ArrayToBase64 P (tag encUser),
                            data_password = uint8ArrayToBase64 P (ciphertext encPassword),
                            data_password_iv = uint8ArrayToBase64 P ivPass,
                            data_password_tag = uint8ArrayToBase64 P (tag encPassword) \<rparr> of
                     Inl e \<Rightarrow> (Some e, v, snd r2)
                   | Inr p \<Rightarrow>
                       reencrypt P newKey dps
                         (v\<lparr>vaultPasswords := vaultPasswords v @ [p]\<rparr>) (snd r2))))"

text \<open>
  \<open>changeMasterPassword\<close>. The current password is used for the trial decryption of the
  first entry and the decryption of all entries, nowhere else. The call of
  \<open>setVerificationToken\<close> is not awaited, so its error is not thrown.
\<close>

definition changeMasterPassword :: "Platform \<Rightarrow> string \<Rightarrow> string \<Rightarrow> Vault \<Rightarrow> World \<Rightarrow> outcome" where
  "changeMasterPassword P currentPassword newPw v w =
     (case getSecretKey (user v) w of
        None \<Rightarrow> (Some CannotRetrieveSecretKey, v, w)
      | Some currentSecretKey \<Rightarrow>
          if currentSecretKey = [] then (Some CannotRetrieveSecretKey, v, w)
          else
            (let currentKey = deriveKey P (salt v) currentPassword currentSecretKey
             in if length (vaultPasswords v) > 0 \<and>
                   isl (getAccountInfo P currentKey (vaultPasswords v ! 0))
                then (Some CurrentPasswordIncorrect, v, w)
                else
                  (case mapResult (getAccountInfo P currentKey) (vaultPasswords v) of
                     Inl e \<Rightarrow> (Some e, v, w)
                   | Inr decryptedPasswords \<Rightarrow>
                       (let r = generateRandomBytes P 32 w; newSalt = fst r;
                            newKey = deriveKey P newSalt newPw currentSecretKey
                        in thenDo
                             (reencrypt P newKey decryptedPasswords
                                (v\<lparr>vaultPasswords := []\<rparr>) (snd r))
                             (\<lambda>v1 w1.
                                (let v2 = v1\<lparr>salt := newSalt, derivedKey := newKey\<rparr>;
                                     tok = caught (setVerificationToken P v2 w1);
                                     v3 = fst tok;
                                     rb = getRandomValues 16 (snd tok)
                                 in case generateRegistration P (fst rb) newPw of
                                      Inl e \<Rightarrow> (Some e, v3, snd rb)
                                    | Inr reg \<Rightarrow>
                                        (case heldToken v3 of
                                           None \<Rightarrow> saveToFile P v3 (snd rb)
                                         | Some t \<Rightarrow>
                                             (case postPassword (snd rb) t (fst reg) (snd reg) of
                                                None \<Rightarrow> (Some FetchError, v3, snd rb)
                                              | Some resp \<Rightarrow>
                                                  if \<not> fst resp
                                                  then (Some ServerUpdateFailed, v3, snd resp)
                                                  else saveToFile P v3 (snd resp)))))))))"

subsection \<open>Creating and opening (client_backend/accountOperations.ts)\<close>

text \<open>
  What \<open>register\<close> and \<open>login\<close> do with the vault, after their exchange with the server:
  \<open>vault = new Vault(username); await vault.factory(masterKey, true)\<close>, and the same with
  \<open>false\<close>.
\<close>

definition createVault :: "Platform \<Rightarrow> string \<Rightarrow> string \<Rightarrow> World \<Rightarrow> outcome" where
  "createVault P u masterKey w = (let r = newVault P u w in factory P masterKey True (fst r) (snd r))"

definition openVault :: "Platform \<Rightarrow> string \<Rightarrow> string \<Rightarrow> World \<Rightarrow> outcome" where
  "openVault P u masterKey w = (let r = newVault P u w in factory P masterKey False (fst r) (snd r))"

section \<open>Example data\<close>

text \<open>
  A platform with toy functions in place of the real ones, for evaluating the model on
  concrete inputs: base64 and UTF-8 are the identity on bytes, the digests are constant,
  and \<open>JSON.parse\<close> always yields the one entry \<open>exampleObject\<close>.
\<close>

definition exampleObject :: PasswordObject where
  "exampleObject =
     \<lparr> password_id = 7, metadata_site = ''bank'', metadata_category = [], metadata_note = [],
       metadata_favorite = False, metadata_created = ''t'', metadata_updated = ''t'',
       data_username = [], data_username_iv = [], data_username_tag = [],
       data_password = [], data_password_iv = [], data_password_tag = [] \<rparr>"

definition examplePlatform :: Platform where
  "examplePlatform =
     \<lparr> sha256Word = (\<lambda>s. 7),
       pbkdf2Word = (\<lambda>pw s n. 9),
       uint8ArrayToBase64 = map (\<lambda>b. char_of (unat b)),
       atob = (\<lambda>s. Some (map (\<lambda>c. word_of_nat (of_char c)) s)),
       stringToUint8Array = map (\<lambda>c. word_of_nat (of_char c)),
       uint8ArrayToString = map (\<lambda>b. char_of (unat b)),
       stringifyVaultPasswords = (\<lambda>ps. replicate (length ps) (CHR ''p'')),
       stringifyPasswordObjects = (\<lambda>ps. replicate (length ps) (CHR ''o'')),
       stringifyEncVault = (\<lambda>e. vault_iv e @ vault_ciphertext e @ vault_tag e),
       parsePasswordObjects = (\<lambda>s. Some [exampleObject]),
       dateGetTime = (\<lambda>s. Some (int (length s))) \<rparr>"

definition exampleWorld :: World where
  "exampleWorld =
     \<lparr> vaultFiles = Map.empty, keyFiles = Map.empty, encryptionAvailable = True,
       randomSource = (\<lambda>i. word_of_nat i), randomPos = 0,
       clockSource = (\<lambda>i. replicate (Suc i) (CHR ''t'')), clockPos = 0,
       serverReachable = True, serverTokens = Map.empty, serverVaults = Map.empty,
       serverUsers = Map.empty \<rparr>"

definition exampleEntry :: "int \<Rightarrow> Password" where
  "exampleEntry i =
     \<lparr> username = [], usernameIV = [], usernameTag = [], passwordId = i,
       password = [], passwordIV = [], passwordTag = [], site = ''site'',
       isFavorite = False, noteText = [], category = [], created = ''t'', updated = ''t'' \<rparr>"

text \<open>
  An unlocked vault of user alice, without a session token, that holds entries with the
  given identifiers; its key is 32 zero bytes.
\<close>

definition exampleVault :: "int list \<Rightarrow> Vault" where
  "exampleVault ids =
     \<lparr> user = ''alice'', createdAt = ''t'', updatedAt = ''t'', version = 1,
       vaultPasswords = map exampleEntry ids, salt = ''salt'', secretKey = ''secret'',
       token = None, verificationToken = [], verificationIV = [], verificationTag = [],
       verificationPlaintext = [], derivedKey = replicate 32 0 \<rparr>"

text \<open>A vault file without the three verification fields, and a world that holds it.\<close>

definition exampleOldDocument :: VaultDocument where
  "exampleOldDocument =
     \<lparr> doc_user = ''alice'', doc_version = 3, doc_salt = ''salt'', doc_createdAt = ''t'',
       doc_updatedAt = ''tt'', doc_verificationToken = None, doc_verificationIV = None,
       doc_verificationTag = None,
       doc_passwords = [getAsObject examplePlatform (exampleEntry 0)] \<rparr>"

definition exampleOldWorld :: World where
  "exampleOldWorld = exampleWorld\<lparr>vaultFiles := [''alice'' \<mapsto> exampleOldDocument]\<rparr>"

text \<open>A world whose server knows alice and her session token, and that holds her key file.\<close>

definition exampleOnlineWorld :: World where
  "exampleOnlineWorld =
     exampleWorld\<lparr>keyFiles := [''alice'' \<mapsto> ''secret''],
                   serverTokens := [''tok'' \<mapsto> ''alice''],
                   serverUsers := [''alice'' \<mapsto> (''aa'', ''1'')]\<rparr>"

text \<open>
  A document on the server, sealed under the key of \<open>exampleVault\<close> and newer than it:
  the inner envelope, and an outer envelope whose plaintext is the argument \<open>digest\<close>.
  With the SHA-256 of the inner envelope as \<open>digest\<close> it is what \<open>uploadVault\<close> posts.
\<close>

definition exampleEncVault :: EncVault where
  "exampleEncVault =
     (let inner = projr (encrypt (replicate 32 0) (replicate 16 1)
                           (stringToUint8Array examplePlatform ''entries'') [])
      in \<lparr> vault_iv = uint8ArrayToBase64 examplePlatform (replicate 16 1),
           vault_ciphertext = uint8ArrayToBase64 examplePlatform (ciphertext inner),
           vault_tag = uint8ArrayToBase64 examplePlatform (tag inner) \<rparr>)"

definition exampleRemote :: "string \<Rightarrow> SyncDocument" where
  "exampleRemote digest =
     (let outer = projr (encrypt (replicate 32 0) (replicate 16 2)
                           (stringToUint8Array examplePlatform digest) [])
      in \<lparr> sync_user = ''alice'', sync_version = 9, sync_salt = ''other salt'',
           sync_createdAt = ''t'', sync_updatedAt = ''tttt'',
           sync_verificationIV = uint8ArrayToBase64 examplePlatform (replicate 16 2),
           sync_verificationCiphertext = uint8ArrayToBase64 examplePlatform (ciphertext outer),
           sync_verificationTag = uint8ArrayToBase64 examplePlatform (tag outer),
           sync_vault = exampleEncVault \<rparr>)"

definition exampleGoodRemote :: SyncDocument where
  "exampleGoodRemote =
     exampleRemote (sha256 examplePlatform (stringifyEncVault examplePlatform exampleEncVault))"

text \<open>The world of a client that holds the token \<open>tok\<close>, with the given document on the server.\<close>

definition exampleSyncWorld :: "SyncDocument \<Rightarrow> World" where
  "exampleSyncWorld d =
     exampleWorld\<lparr>serverTokens := [''tok'' \<mapsto> ''alice''], serverVaults := [''alice'' \<mapsto> d]\<rparr>"

section \<open>Predicates of the statements\<close>

text \<open>\<open>atob\<close> decodes what \<open>Buffer.toString('base64')\<close> encodes.\<close>

definition base64RoundTrip :: "Platform \<Rightarrow> bool" where
  "base64RoundTrip P = (\<forall>bs. atob P (uint8ArrayToBase64 P bs) = Some bs)"

text \<open>The identifiers grow along the list, as they do in every list built by \<open>addPassword\<close>.\<close>

definition increasingIds :: "Password list \<Rightarrow> bool" where
  "increasingIds ps = sorted_wrt (<) (map passwordId ps)"

text \<open>\<open>TextDecoder\<close> decodes what \<open>TextEncoder\<close> encodes of a digest (64 hex digits).\<close>

definition digestRoundTrip :: "Platform \<Rightarrow> bool" where
  "digestRoundTrip P =
     (\<forall>s. uint8ArrayToString P (stringToUint8Array P (sha256 P s)) = sha256 P s)"

text \<open>
  The verification fields hold, in base64, an encryption under the vault's key of the
  digest of its entries: the state \<open>saveToFile\<close> leaves.
\<close>

definition sealed :: "Platform \<Rightarrow> Vault \<Rightarrow> bool" where
  "sealed P v =
     (\<exists>iv. verificationIV v = uint8ArrayToBase64 P iv \<and>
        verificationToken v =
          uint8ArrayToBase64 P (ciphertext (projr (encrypt (derivedKey v) iv
            (stringToUint8Array P (sha256 P (stringifyVaultPasswords P (vaultPasswords v)))) []))) \<and>
        verificationTag v =
          uint8ArrayToBase64 P (tag (projr (encrypt (derivedKey v) iv
            (stringToUint8Array P (sha256 P (stringifyVaultPasswords P (vaultPasswords v)))) []))))"

text \<open>
  The lists of entries that \<open>n\<close> additions and any number of removals build from the
  empty list of a new vault: an addition appends an entry numbered as \<open>addPassword\<close> numbers
  it, a removal runs the loop of \<open>removePassword\<close>.
\<close>

inductive builtWithin :: "nat \<Rightarrow> Password list \<Rightarrow> bool" where
  new: "builtWithin 0 []"
| added: "builtWithin n ps \<Longrightarrow>
          passwordId p = (if ps = [] then 0 else increment (passwordId (last ps))) \<Longrightarrow>
          builtWithin (Suc n) (ps @ [p])"
| removed: "builtWithin n ps \<Longrightarrow> builtWithin n (removeLoop ident 0 ps)"
section \<open>The AEAD round trip\<close>

declare gctrBlocks.simps [simp del]

lemma andThen_Inr [simp]: "andThen (Inr x) f = f x"
  by (simp add: andThen_def)

lemma andThen_Inl [simp]: "andThen (Inl e) f = Inl e"
  by (simp add: andThen_def)

lemma keyExpansion_ok:
  assumes "length key = 32"
  shows "\<exists>rks. keyExpansion key = Inr rks \<and> length rks = 15"
  using assms by (simp add: keyExpansion_def KEY_SIZE_def NUM_ROUNDS_def Let_def)

lemma length_addRoundKey [simp]: "length (addRoundKey s k) = 16"
  by (simp add: addRoundKey_def BLOCK_SIZE_def)

lemma encryptBlock_ok:
  assumes "length b = 16" and "15 \<le> length rks"
  shows "\<exists>c. encryptBlock b rks = Inr c \<and> length c = 16"
  using assms by (simp add: encryptBlock_def BLOCK_SIZE_def NUM_ROUNDS_def Let_def)

lemma fromBytes_ok:
  assumes "length bs = 16"
  shows "\<exists>x. fromBytes bs = Inr x"
  using assms by (simp add: fromBytes_def)

lemma ghashLoop_ok:
  assumes "(i + n) * 16 \<le> length bs"
  shows "\<exists>y. ghashLoop n i hk bs Y = Inr y"
  using assms
proof (induction n arbitrary: i Y)
  case 0
  then show ?case by simp
next
  case (Suc n)
  have "length (take 16 (drop (i * 16) bs)) = 16"
    using Suc.prems by simp
  then obtain X where X: "fromBytes (take 16 (drop (i * 16) bs)) = Inr X"
    using fromBytes_ok by blast
  have "(Suc i + n) * 16 \<le> length bs"
    using Suc.prems by simp
  from Suc.IH [OF this] show ?case
    by (simp add: X)
qed

lemma length_toBytes [simp]: "length (toBytes x) = 16"
  by (simp add: toBytes_def)

lemma ghash_ok:
  assumes "length Hs = 16" and "length bs mod 16 = 0"
  shows "\<exists>y. ghash Hs bs = Inr y \<and> length y = 16"
proof -
  obtain hk where hk: "fromBytes Hs = Inr hk"
    using fromBytes_ok [OF assms(1)] by blast
  have "(0 + length bs div 16) * 16 \<le> length bs"
    by simp
  from ghashLoop_ok [OF this]
  obtain Y where "ghashLoop (length bs div 16) 0 hk bs \<lparr>high = 0, low = 0\<rparr> = Inr Y"
    by blast
  then show ?thesis
    using assms hk by (simp add: ghash_def)
qed

lemma length_padTo16 [simp]: "length (padTo16 bs) mod 16 = 0"
  by (simp add: padTo16_def Let_def mod_simps) presburger

lemma length_createLengthBlock [simp]: "length (createLengthBlock a c) = 16"
  by (simp add: createLengthBlock_def)

lemma length_ghashInput [simp]: "length (ghashInput aad c) mod 16 = 0"
proof -
  have "(length (padTo16 aad) + (length (padTo16 c) + 16)) mod 16 = 0"
    using length_padTo16 [of aad] length_padTo16 [of c] by presburger
  then show ?thesis by (simp add: ghashInput_def)
qed

lemma generateJ0_ok:
  assumes "length Hs = 16"
  shows "\<exists>J0. generateJ0 iv Hs = Inr J0 \<and> length J0 = 16"
proof (cases "length iv = GCM_IV_SIZE")
  case True
  then show ?thesis by (simp add: generateJ0_def GCM_IV_SIZE_def)
next
  case False
  have "length (padTo16 iv @ createLengthBlock 0 (length iv)) mod 16 = 0"
    using length_padTo16 [of iv] by (simp add: mod_simps)
  from ghash_ok [OF assms this] show ?thesis
    using False by (simp add: generateJ0_def)
qed

lemma length_incLoop [simp]: "length (incLoop n xs) = length xs"
  by (induction n arbitrary: xs) (simp_all add: Let_def)

lemma length_incrementCounter [simp]: "length (incrementCounter c) = length c"
  by (simp add: incrementCounter_def)

lemma length_xorBytes [simp]: "length (xorBytes a b) = length a"
  by (simp add: xorBytes_def)

lemma xor_twice [simp]: "(a XOR k) XOR k = (a::byte)"
  by (simp add: xor.assoc)

lemma xorBytes_twice [simp]: "xorBytes (xorBytes a k) k = a"
  by (rule nth_equalityI) (simp_all add: xorBytes_def)

lemma xorPartial_twice:
  "map (\<lambda>i. map (\<lambda>i. bs ! i XOR at0 ks i) [0..<length bs] ! i XOR at0 ks i) [0..<length bs] = bs"
  by (rule nth_equalityI) simp_all

lemma gctrBlocks_involution:
  assumes "length counter = 16" and "15 \<le> length rks"
  shows "\<exists>c. gctrBlocks rks counter bs = Inr c \<and> length c = length bs \<and>
             gctrBlocks rks counter c = Inr bs"
  using assms
proof (induction rks counter bs rule: gctrBlocks.induct)
  case (1 roundKeys counter bs)
  obtain ks where ks: "encryptBlock counter roundKeys = Inr ks" "length ks = 16"
    using encryptBlock_ok [OF "1.prems"] by blast
  show ?case
  proof (cases "length bs < BLOCK_SIZE")
    case True
    show ?thesis
    proof (cases "bs = []")
      case True
      then show ?thesis by (simp add: gctrBlocks.simps [of roundKeys counter "[]"] BLOCK_SIZE_def)
    next
      case False
      let ?c = "map (\<lambda>i. bs ! i XOR at0 ks i) [0..<length bs]"
      have c: "gctrBlocks roundKeys counter bs = Inr ?c"
        using True False ks by (simp add: gctrBlocks.simps [of roundKeys counter bs])
      have "?c \<noteq> []" using False by simp
      then have "gctrBlocks roundKeys counter ?c =
                   Inr (map (\<lambda>i. ?c ! i XOR at0 ks i) [0..<length ?c])"
        using True ks by (simp add: gctrBlocks.simps [of roundKeys counter ?c])
      then have "gctrBlocks roundKeys counter ?c = Inr bs"
        using xorPartial_twice [of bs ks] by simp
      with c show ?thesis by simp
    qed
  next
    case False
    have len: "length (incrementCounter counter) = 16"
      using "1.prems" by simp
    from "1.IH" [OF False ks(1) len "1.prems"(2)]
    obtain rest where rest:
      "gctrBlocks roundKeys (incrementCounter counter) (drop BLOCK_SIZE bs) = Inr rest"
      "length rest = length (drop BLOCK_SIZE bs)"
      "gctrBlocks roundKeys (incrementCounter counter) rest = Inr (drop BLOCK_SIZE bs)"
      by blast
    let ?c = "xorBytes (take BLOCK_SIZE bs) ks @ rest"
    have c: "gctrBlocks roundKeys counter bs = Inr ?c"
      using False ks rest by (simp add: gctrBlocks.simps [of roundKeys counter bs])
    have lenc: "length ?c = length bs"
      using False rest by (simp add: BLOCK_SIZE_def)
    have tk: "take BLOCK_SIZE ?c = xorBytes (take BLOCK_SIZE bs) ks"
      using False by (simp add: BLOCK_SIZE_def)
    have dr: "drop BLOCK_SIZE ?c = rest"
      using False by (simp add: BLOCK_SIZE_def)
    have "gctrBlocks roundKeys counter ?c = Inr (take BLOCK_SIZE bs @ drop BLOCK_SIZE bs)"
      using False ks rest lenc
      by (subst gctrBlocks.simps) (simp add: tk dr del: append_take_drop_id)
    with c lenc show ?thesis by simp
  qed
qed

lemma gctr_involution:
  assumes "length icb = 16" and "15 \<le> length rks"
  shows "\<exists>c. gctr rks icb bs = Inr c \<and> length c = length bs \<and> gctr rks icb c = Inr bs"
proof (cases "bs = []")
  case True
  then show ?thesis by (simp add: gctr_def)
next
  case False
  from gctrBlocks_involution [OF assms, of bs]
  obtain c where "gctrBlocks rks icb bs = Inr c" "length c = length bs"
    "gctrBlocks rks icb c = Inr bs" by blast
  with False show ?thesis by (auto simp: gctr_def)
qed

lemma tagValid_refl [simp]: "tagValid t t"
  by (simp add: tagValid_def list_all_iff)

lemma encrypt_decrypt:
  assumes "length key = 32"
  shows "\<exists>r. encrypt key iv plaintext aad = Inr r \<and>
             decrypt key iv (ciphertext r) (tag r) aad = Inr plaintext"
proof -
  obtain rks where rks: "keyExpansion key = Inr rks" "length rks = 15"
    using keyExpansion_ok [OF assms] by blast
  then have rks15: "15 \<le> length rks" by simp
  obtain Hs where Hs: "encryptBlock (replicate BLOCK_SIZE 0) rks = Inr Hs" "length Hs = 16"
    using encryptBlock_ok [of "replicate BLOCK_SIZE 0" rks] rks15 by (auto simp: BLOCK_SIZE_def)
  obtain J0 where J0: "generateJ0 iv Hs = Inr J0" "length J0 = 16"
    using generateJ0_ok [OF Hs(2)] by blast
  have icb: "length (incrementCounter J0) = 16" using J0 by simp
  obtain c where c: "gctr rks (incrementCounter J0) plaintext = Inr c"
    "gctr rks (incrementCounter J0) c = Inr plaintext"
    using gctr_involution [OF icb rks15] by blast
  obtain S where S: "ghash Hs (ghashInput aad c) = Inr S" "length S = 16"
    using ghash_ok [OF Hs(2) length_ghashInput] by blast
  obtain t where t: "gctr rks J0 S = Inr t" "length t = length S"
    using gctr_involution [OF J0(2) rks15] by blast
  have enc: "encrypt key iv plaintext aad = Inr \<lparr>ciphertext = c, tag = t\<rparr>"
    by (simp add: encrypt_def rks Hs J0 c S t)
  have dec: "decrypt key iv c t aad = Inr plaintext"
    using t S by (simp add: decrypt_def GCM_TAG_SIZE_def rks Hs J0 c)
  from enc dec show ?thesis by simp
qed

text \<open>
  Claim C1. For every 32-byte key, every IV, every plaintext and every AAD, \<open>encrypt\<close>
  returns a ciphertext and a tag, and \<open>decrypt\<close> under the same key, IV and AAD accepts
  that tag and returns the plaintext.
\<close>

theorem gcm_round_trip:
  assumes "length key = 32"
  shows "\<exists>r. encrypt key iv plaintext aad = Inr r \<and>
             decrypt key iv (ciphertext r) (tag r) aad = Inr plaintext"
  using assms by (rule encrypt_decrypt)

theorem gcm_round_trip_witness:
  "\<exists>r. encrypt (replicate 32 1) (replicate 16 7) [1, 2, 3] [9] = Inr r \<and>
       decrypt (replicate 32 1) (replicate 16 7) (ciphertext r) (tag r) [9] = Inr [1, 2, 3]"
  using gcm_round_trip [of "replicate 32 1" "replicate 16 7" "[1, 2, 3]" "[9]"] by simp
section \<open>SRP: both sides derive the same session\<close>

declare modPowLoop.simps [simp del] toHex.simps [simp del] addUntilNonNegative.simps [simp del]

lemma hexVal_hexDigit: "d < 16 \<Longrightarrow> hexVal (hexDigit d) = Some d"
  by (auto simp: hexVal_def hexDigit_def Let_def)

lemma parseHexDigits_append:
  "parseHexDigits acc (xs @ ys) =
     (case parseHexDigits acc xs of None \<Rightarrow> None | Some a \<Rightarrow> parseHexDigits a ys)"
  by (induction xs arbitrary: acc) (auto split: option.splits)

lemma parseHexDigits_toHex: "parseHexDigits 0 (toHex n) = Some n"
proof (induction n rule: toHex.induct)
  case (1 n)
  show ?case
  proof (cases "n < 16")
    case True
    then show ?thesis
      by (simp add: toHex.simps [of n] hexVal_hexDigit)
  next
    case False
    have "hexVal (hexDigit (n mod 16)) = Some (n mod 16)"
      by (simp add: hexVal_hexDigit)
    with False "1.IH" show ?thesis
      by (simp add: toHex.simps [of n] parseHexDigits_append)
  qed
qed

lemma toHex_not_Nil: "toHex n \<noteq> []"
  by (simp add: toHex.simps [of n])

lemma parseHexDigits_zeros:
  "parseHexDigits 0 (replicate m (CHR ''0'') @ s) = parseHexDigits 0 s"
  by (induction m) (simp_all add: hexVal_def)

lemma hexDigit_not_space: "d < 16 \<Longrightarrow> \<not> isWhiteSpace (hexDigit d)"
  by (auto simp: isWhiteSpace_def hexDigit_def)

lemma toHex_last: "\<exists>ys d. d < 16 \<and> toHex n = ys @ [hexDigit d]"
proof (cases "n < 16")
  case True
  then have "toHex n = [] @ [hexDigit n]"
    by (simp add: toHex.simps [of n])
  with True show ?thesis by blast
next
  case False
  then have "toHex n = toHex (n div 16) @ [hexDigit (n mod 16)]"
    by (simp add: toHex.simps [of n])
  moreover have "n mod 16 < 16" by simp
  ultimately show ?thesis by blast
qed

lemma trimEnd_toHex:
  "rev (dropWhile isWhiteSpace (rev (xs @ toHex n))) = xs @ toHex n"
proof -
  obtain ys d where d: "d < 16" "toHex n = ys @ [hexDigit d]"
    using toHex_last by blast
  show ?thesis
    using hexDigit_not_space [OF d(1)] by (simp add: d(2))
qed

lemma bigIntOfHex_toString16: "0 \<le> n \<Longrightarrow> bigIntOfHex (toString16 n) = Inr n"
  using trimEnd_toHex [of "[]" "nat n"]
  by (simp add: bigIntOfHex_def toString16_def toHex_not_Nil parseHexDigits_toHex)

lemma bigIntOfHex_sha256: "bigIntOfHex (sha256 P s) = Inr (uint (sha256Word P s))"
proof -
  have t: "rev (dropWhile isWhiteSpace (rev (sha256 P s))) = sha256 P s"
    unfolding sha256_def padStart_def by (rule trimEnd_toHex)
  have ne: "sha256 P s \<noteq> []"
    by (simp add: sha256_def padStart_def toHex_not_Nil)
  have p: "parseHexDigits 0 (sha256 P s) = Some (unat (sha256Word P s))"
    by (simp add: sha256_def padStart_def parseHexDigits_zeros parseHexDigits_toHex)
  show ?thesis
    unfolding bigIntOfHex_def t Let_def using ne p by simp
qed

lemma H_ok: "H P args = Inr (uint (sha256Word P (concat (map evenHex args))))"
  by (simp add: H_def bigIntOfHex_sha256)

lemma jsRem_nonneg: "0 \<le> a \<Longrightarrow> 0 < b \<Longrightarrow> jsRem a b = a mod b"
  by (cases "a = 0") (simp_all add: jsRem_def)

lemma jsDiv_pos: "0 < a \<Longrightarrow> jsDiv a 2 = a div 2"
  by (simp add: jsDiv_def)

lemma N_pos: "1 < N"
  by (simp add: N_def)

lemma N_odd: "odd N"
  by (simp add: N_def)

lemma modPowLoop_eq:
  assumes "0 < m" and "0 \<le> res" and "res < m" and "0 \<le> base"
  shows "modPowLoop res base exp m = (res * base ^ nat exp) mod m"
  using assms
proof (induction res base exp m rule: modPowLoop.induct)
  case (1 res base exp m)
  show ?case
  proof (cases "exp > 0")
    case False
    with "1.prems" show ?thesis
      by (simp add: modPowLoop.simps [of res base exp m])
  next
    case True
    let ?res' = "if jsRem exp 2 = 1 then jsRem (res * base) m else res"
    let ?base' = "jsRem (base * base) m"
    have rb: "jsRem (res * base) m = (res * base) mod m"
      using "1.prems" by (simp add: jsRem_nonneg)
    have bb: "?base' = (base * base) mod m"
      using "1.prems" by (simp add: jsRem_nonneg)
    have e2: "jsRem exp 2 = exp mod 2"
      using True by (simp add: jsRem_nonneg)
    have res'_ok: "0 \<le> ?res'" "?res' < m"
      using "1.prems" rb by auto
    have base'_ok: "0 \<le> ?base'"
      using "1.prems" bb by simp
    have step: "modPowLoop res base exp m = modPowLoop ?res' ?base' (jsDiv exp 2) m"
      using True by (subst modPowLoop.simps) simp
    have IH: "modPowLoop ?res' ?base' (jsDiv exp 2) m = (?res' * ?base' ^ nat (jsDiv exp 2)) mod m"
      using "1.IH" [OF True "1.prems"(1) res'_ok base'_ok] .
    have d2: "nat (jsDiv exp 2) = nat exp div 2"
      using True by (simp add: jsDiv_pos nat_div_distrib)
    have pw: "(?base' ^ (nat exp div 2)) mod m = (base ^ (2 * (nat exp div 2))) mod m"
      by (simp add: bb power_mod power_mult power2_eq_square)
    show ?thesis
    proof (cases "exp mod 2 = 1")
      case odd: True
      have "nat exp mod 2 = nat (exp mod 2)"
        using True by (simp add: nat_mod_distrib)
      then have "nat exp mod 2 = 1"
        using odd by simp
      then have ne: "nat exp = 2 * (nat exp div 2) + 1"
        using mult_div_mod_eq [of 2 "nat exp"] by simp
      have "(?res' * ?base' ^ (nat exp div 2)) mod m
            = ((res * base) mod m * (?base' ^ (nat exp div 2) mod m)) mod m"
        using odd e2 rb by (simp add: mod_mult_right_eq)
      also have "\<dots> = ((res * base) * base ^ (2 * (nat exp div 2))) mod m"
        by (simp only: pw mod_mult_eq)
      also have "\<dots> = (res * base ^ (2 * (nat exp div 2) + 1)) mod m"
        by (simp add: mult.assoc)
      also have "\<dots> = (res * base ^ nat exp) mod m"
        using ne by simp
      finally show ?thesis
        using step IH d2 by simp
    next
      case even: False
      then have e0: "exp mod 2 = 0" by presburger
      have "nat exp mod 2 = nat (exp mod 2)"
        using True by (simp add: nat_mod_distrib)
      then have "nat exp mod 2 = 0"
        using e0 by simp
      then have ne: "nat exp = 2 * (nat exp div 2)"
        using mult_div_mod_eq [of 2 "nat exp"] by simp
      have r': "?res' = res"
        using even e2 by simp
      have "(res * ?base' ^ (nat exp div 2)) mod m = (res * (?base' ^ (nat exp div 2) mod m)) mod m"
        by (simp add: mod_mult_right_eq)
      also have "\<dots> = (res * base ^ (2 * (nat exp div 2))) mod m"
        by (simp only: pw mod_mult_right_eq)
      also have "\<dots> = (res * base ^ nat exp) mod m"
        using ne by simp
      finally show ?thesis
        using step IH d2 r' by simp
    qed
  qed
qed

lemma modPow_eq:
  assumes "1 < m" and "0 \<le> base"
  shows "modPow base exp m = (base ^ nat exp) mod m"
proof -
  have "modPow base exp m = (1 * (base mod m) ^ nat exp) mod m"
    using assms by (simp add: modPow_def jsRem_nonneg modPowLoop_eq)
  then show ?thesis by (simp add: power_mod)
qed

lemma addUntilNonNegative_eq:
  "addUntilNonNegative b = (if b < 0 then b mod N else b)"
proof (induction b rule: addUntilNonNegative.induct)
  case (1 base)
  show ?case
  proof (cases "base < 0")
    case False
    then show ?thesis by (simp add: addUntilNonNegative.simps [of base])
  next
    case True
    have step: "addUntilNonNegative base = addUntilNonNegative (base + N)"
      using True by (subst addUntilNonNegative.simps) simp
    show ?thesis
    proof (cases "base + N < 0")
      case True
      with "1.IH" [OF \<open>base < 0\<close>] step \<open>base < 0\<close> show ?thesis by simp
    next
      case False
      then have "0 \<le> base + N" and "base + N < N"
        using \<open>base < 0\<close> by simp_all
      then have "(base + N) mod N = base + N"
        by (rule mod_pos_pos_trivial)
      then have "base mod N = base + N" by simp
      with "1.IH" [OF \<open>base < 0\<close>] step False \<open>base < 0\<close> show ?thesis by simp
    qed
  qed
qed

lemma pow2_mod_N_nonzero: "(2 ^ n) mod N \<noteq> 0"
proof
  assume "(2 ^ n) mod N = 0"
  then have dv: "N dvd 2 ^ n" by (simp add: dvd_eq_mod_eq_0)
  have cp: "coprime N (2 ^ n)"
    using N_odd by simp
  from coprime_common_divisor [OF cp dvd_refl dv] have "is_unit N" .
  with N_pos show False by simp
qed


lemma toString16_zero: "toString16 0 = ''0''"
  by code_simp

lemma modPow_g: "0 \<le> e \<Longrightarrow> modPow g e N = 2 ^ nat e mod N"
  using N_pos by (simp add: modPow_eq g_def)

lemma clientGenerateEphemeral_eq:
  "clientGenerateEphemeral draws i =
     Some (toString16 (uint (draws i)), toString16 (modPow g (uint (draws i)) N))"
proof -
  let ?A = "modPow g (uint (draws i)) N"
  have A: "?A = 2 ^ nat (uint (draws i)) mod N"
    by (simp add: modPow_g)
  then have "0 \<le> ?A" and "?A < N"
    using N_pos by simp_all
  then have "jsRem ?A N = ?A"
    using N_pos by (simp add: jsRem_nonneg)
  then have "jsRem ?A N \<noteq> 0"
    using A pow2_mod_N_nonzero by simp
  then show ?thesis
    by (subst clientGenerateEphemeral.simps) (simp add: Let_def)
qed

lemma session_secret_agrees:
  fixes na nb nx nu :: nat
  defines "A \<equiv> (2::int) ^ na mod N" and "v \<equiv> (2::int) ^ nx mod N" and "gb \<equiv> (2::int) ^ nb mod N"
  shows "(gb ^ (na + nu * nx)) mod N = (((A * (v ^ nu mod N)) mod N) ^ nb) mod N"
proof -
  have "(gb ^ (na + nu * nx)) mod N = ((2::int) ^ (nb * (na + nu * nx))) mod N"
    by (simp add: gb_def power_mod power_mult)
  moreover have "(A * (v ^ nu mod N)) mod N = ((2::int) ^ (na + nx * nu)) mod N"
    by (simp add: A_def v_def power_mod power_add power_mult mod_mult_eq)
  then have "(((A * (v ^ nu mod N)) mod N) ^ nb) mod N = ((2::int) ^ ((na + nx * nu) * nb)) mod N"
    by (simp add: power_mod power_mult)
  moreover have "nb * (na + nu * nx) = (na + nx * nu) * nb"
    by (simp add: algebra_simps)
  ultimately show ?thesis by simp
qed

text \<open>
  Claim C3. The server holds the verifier of a registration with the password; the server's
  ephemeral \<open>B\<close> comes from \<open>generateEphemeral\<close> on that verifier, the client's \<open>a\<close> and
  \<open>A\<close> from its own \<open>generateEphemeral\<close>, and both sides have run \<open>initSRP\<close>. Unless the
  server's \<open>B\<close> is 0, which the client's safety check rejects, \<open>computeSession\<close> returns
  \<open>(K, M1, M2)\<close> and \<open>verifySession\<close> on the client's \<open>A\<close> and \<open>M1\<close> accepts the proof and
  returns the same \<open>K\<close> and the same \<open>M2\<close>.
\<close>

theorem srp_agreement:
  assumes reg: "generateRegistration P saltBytes pw = Inr (salt_hex, verifier)"
    and k: "initSRP P = Inr k"
    and cl: "clientGenerateEphemeral draws i = Some (a_hex, A_hex)"
    and sv: "serverGenerateEphemeral k verifier (uint bw) = Inr (b_hex, B_hex)"
    and nz: "B_hex \<noteq> ''0''"
  shows "\<exists>K M1 M2. computeSession P k salt_hex uname pw a_hex B_hex = Inr (K, M1, M2) \<and>
                   verifySession P k uname salt_hex verifier A_hex b_hex M1 = Inr (K, M2)"
proof -
  define x where "x = uint (sha256Word P (salt_hex @ pw))"
  define a where "a = uint (draws i)"
  define b where "b = uint bw"
  define v where "v = (2::int) ^ nat x mod N"
  define A where "A = (2::int) ^ nat a mod N"
  define gb where "gb = (2::int) ^ nat b mod N"
  define kv where "kv = (k * v) mod N"
  define B where "B = (kv + gb) mod N"
  define u where "u = uint (sha256Word P (concat (map evenHex [A, B])))"
  have nonneg: "0 \<le> x" "0 \<le> a" "0 \<le> b" "0 \<le> u"
    by (simp_all add: x_def a_def b_def u_def)
  have rng: "0 \<le> v" "v < N" "0 \<le> A" "A < N" "0 \<le> gb" "gb < N" "0 \<le> kv" "kv < N" "0 \<le> B" "B < N"
    using N_pos by (simp_all add: v_def A_def gb_def kv_def B_def)
  have k0: "0 \<le> k"
    using k by (auto simp: initSRP_def H_ok)
  have xhash: "bigIntOfHex (sha256 P (salt_hex @ pw)) = Inr x"
    by (simp add: bigIntOfHex_sha256 x_def)
  have mv: "modPow g x N = v"
    using nonneg by (simp add: modPow_g v_def)
  have sh: "salt_hex = bytesToHex saltBytes"
    using reg by (auto simp: generateRegistration_def Let_def bigIntOfHex_sha256)
  have ver: "verifier = toString16 v"
    using reg xhash mv by (auto simp: generateRegistration_def Let_def sh)
  have pver: "bigIntOfHex verifier = Inr v"
    using rng by (simp add: ver bigIntOfHex_toString16)
  have ahex: "a_hex = toString16 a" and Ahex: "A_hex = toString16 A"
    using cl nonneg by (simp_all add: clientGenerateEphemeral_eq a_def A_def modPow_g)
  have jkv: "jsRem (k * v) N = kv"
    using k0 rng N_pos by (simp add: jsRem_nonneg kv_def)
  have mgb: "modPow g b N = gb"
    using nonneg by (simp add: modPow_g gb_def)
  have jB: "jsRem (kv + gb) N = B"
    using rng N_pos by (simp add: jsRem_nonneg B_def)
  have bhex: "b_hex = toString16 b" and Bhex: "B_hex = toString16 B"
    using sv pver jkv mgb jB by (simp_all add: serverGenerateEphemeral_def Let_def b_def)
  have Bnz: "B \<noteq> 0"
    using nz Bhex toString16_zero by auto
  have pa: "bigIntOfHex a_hex = Inr a" and pA: "bigIntOfHex A_hex = Inr A"
    and pb: "bigIntOfHex b_hex = Inr b" and pB: "bigIntOfHex B_hex = Inr B"
    using nonneg rng by (simp_all add: ahex Ahex bhex Bhex bigIntOfHex_toString16)
  have remB: "jsRem B N \<noteq> 0"
    using rng N_pos Bnz by (simp add: jsRem_nonneg)
  have remA: "jsRem A N \<noteq> 0"
    using rng N_pos pow2_mod_N_nonzero [of "nat a"] by (simp add: jsRem_nonneg A_def)
  have mA: "modPow g a N = A"
    using nonneg by (simp add: modPow_g A_def)
  have Hu: "H P [A, B] = Inr u"
    by (simp add: H_ok u_def)
  have base_c: "addUntilNonNegative (B - kv) = gb"
  proof -
    have "(B - kv) mod N = gb"
      using rng by (simp add: B_def mod_diff_left_eq)
    moreover have "0 \<le> B - kv \<Longrightarrow> (B - kv) mod N = B - kv"
      using rng by simp
    ultimately show ?thesis
      by (auto simp: addUntilNonNegative_eq)
  qed
  have e: "nat (a + u * x) = nat a + nat u * nat x"
    using nonneg by (simp add: nat_add_distrib nat_mult_distrib)
  have Sc: "modPow gb (a + u * x) N = (gb ^ (nat a + nat u * nat x)) mod N"
    using rng N_pos by (simp add: modPow_eq e)
  have vu: "modPow v u N = v ^ nat u mod N"
    using rng N_pos by (simp add: modPow_eq)
  have base_s: "jsRem (A * (v ^ nat u mod N)) N = (A * (v ^ nat u mod N)) mod N"
    using rng N_pos by (simp add: jsRem_nonneg)
  have Ss: "modPow ((A * (v ^ nat u mod N)) mod N) b N = (((A * (v ^ nat u mod N)) mod N) ^ nat b) mod N"
    using N_pos by (simp add: modPow_eq)
  have S_eq: "modPow gb (a + u * x) N = modPow ((A * (v ^ nat u mod N)) mod N) b N"
  proof -
    have "(gb ^ (nat a + nat u * nat x)) mod N = (((A * (v ^ nat u mod N)) mod N) ^ nat b) mod N"
      unfolding gb_def A_def v_def by (rule session_secret_agrees)
    then show ?thesis by (simp only: Sc Ss)
  qed
  define S where "S = modPow gb (a + u * x) N"
  define K where "K = sha256 P (H_pad_hex S)"
  define M1 where "M1 = sha256 P (toString16 A @ toString16 B @ K)"
  define M2 where "M2 = sha256 P (toString16 A @ M1 @ K)"
  have client: "computeSession P k salt_hex uname pw a_hex B_hex = Inr (K, M1, M2)"
    by (simp add: computeSession_def pa pB remB mA Hu xhash mv jkv base_c Let_def
        S_def K_def M1_def M2_def)
  have server: "verifySession P k uname salt_hex verifier A_hex b_hex M1 = Inr (K, M2)"
    by (simp add: verifySession_def pA pb pver remA mgb jkv jB Hu vu base_s Let_def
        S_eq [symmetric] S_def [symmetric] K_def [symmetric] M1_def [symmetric] M2_def)
  from client server show ?thesis by blast
qed

theorem srp_agreement_witness:
  "\<exists>K M1 M2.
     computeSession examplePlatform 7 (bytesToHex [1, 255]) ''alice'' ''pw''
       (toString16 3) (toString16 928) = Inr (K, M1, M2) \<and>
     verifySession examplePlatform 7 ''alice'' (bytesToHex [1, 255]) (toString16 128)
       (toString16 8) (toString16 5) M1 = Inr (K, M2)"
proof -
  have small: "(128::int) mod N = 128" "(32::int) mod N = 32" "(8::int) mod N = 8"
    "(928::int) mod N = 928" "(896::int) mod N = 896"
    by (simp_all add: N_def)
  have m7: "modPow g 7 N = 128" and m5: "modPow g 5 N = 32" and m3: "modPow g 3 N = 8"
    using small by (simp_all add: modPow_g)
  have reg: "generateRegistration examplePlatform [1, 255] ''pw'' =
               Inr (bytesToHex [1, 255], toString16 128)"
    by (simp add: generateRegistration_def bigIntOfHex_sha256 examplePlatform_def m7)
  have k: "initSRP examplePlatform = Inr 7"
    by (simp add: initSRP_def H_ok examplePlatform_def)
  have cl: "clientGenerateEphemeral (\<lambda>i. 3) 0 = Some (toString16 3, toString16 8)"
    by (simp add: clientGenerateEphemeral_eq m3)
  have sv: "serverGenerateEphemeral 7 (toString16 128) (uint (5::256 word)) =
              Inr (toString16 5, toString16 928)"
    using small N_pos by (simp add: serverGenerateEphemeral_def bigIntOfHex_toString16 m5 jsRem_nonneg)
  have "bigIntOfHex (toString16 928) \<noteq> bigIntOfHex (toString16 0)"
    by (simp add: bigIntOfHex_toString16)
  then have nz: "toString16 928 \<noteq> ''0''"
    by (auto simp: toString16_zero)
  from srp_agreement [OF reg k cl sv nz] show ?thesis .
qed
section \<open>Properties of the vault engine\<close>

declare removeLoop.simps [simp del]

lemma increment_safe: "\<bar>n + 1\<bar> \<le> 2 ^ 53 \<Longrightarrow> increment n = n + 1"
  by (simp add: increment_def roundToDouble_def)

lemma thenDo_None [simp]: "thenDo (None, v, w) f = f v w"
  by (simp add: thenDo_def)

lemma thenDo_Some [simp]: "thenDo (Some e, v, w) f = (Some e, v, w)"
  by (simp add: thenDo_def)

lemma encrypt_ok:
  assumes "length key = 32"
  shows "\<exists>r. encrypt key iv plaintext aad = Inr r"
  using encrypt_decrypt [OF assms] by blast

lemma length_getRandomValues [simp]: "length (fst (getRandomValues n w)) = n"
  by (simp add: getRandomValues_def)

lemma length_generateRandomIV [simp]: "length (fst (generateRandomIV w)) = 16"
  by (simp add: generateRandomIV_def)

lemma setVerificationToken_passwords [simp]:
  "vaultPasswords (fst (snd (setVerificationToken P v w))) = vaultPasswords v"
  by (simp add: setVerificationToken_def Let_def split: sum.splits)

lemma saveToFile_passwords [simp]:
  "vaultPasswords (fst (snd (saveToFile P v w))) = vaultPasswords v"
proof -
  let ?v3 = "v\<lparr>version := increment (version v), updatedAt := fst (toISOString w),
                verificationPlaintext := sha256 P (stringifyVaultPasswords P (vaultPasswords v))\<rparr>"
  obtain e v4 w4 where r: "setVerificationToken P ?v3 (snd (toISOString w)) = (e, v4, w4)"
    by (metis prod_cases3)
  have "vaultPasswords v4 = vaultPasswords v"
    using setVerificationToken_passwords [of P ?v3 "snd (toISOString w)"] r by simp
  then show ?thesis
    using r by (cases e) (simp_all add: saveToFile_def Let_def)
qed

lemma sync_no_token [simp]: "heldToken v = None \<Longrightarrow> sync P v w = (v, w)"
  by (simp add: sync_def)

lemma heldToken_frame [simp]:
  "heldToken (fst (snd (setVerificationToken P v w))) = heldToken v"
  by (simp add: setVerificationToken_def Let_def heldToken_def split: sum.splits)

lemma saveToFile_token [simp]:
  "heldToken (fst (snd (saveToFile P v w))) = heldToken v"
proof -
  let ?v3 = "v\<lparr>version := increment (version v), updatedAt := fst (toISOString w),
                verificationPlaintext := sha256 P (stringifyVaultPasswords P (vaultPasswords v))\<rparr>"
  obtain e v4 w4 where r: "setVerificationToken P ?v3 (snd (toISOString w)) = (e, v4, w4)"
    by (metis prod_cases3)
  have "heldToken v4 = heldToken ?v3"
    using heldToken_frame [of P ?v3 "snd (toISOString w)"] r by simp
  then have "heldToken v4 = heldToken v" by (simp add: heldToken_def)
  then show ?thesis
    using r by (cases e) (simp_all add: saveToFile_def Let_def)
qed

lemma removePassword_passwords:
  assumes "heldToken v = None"
  shows "vaultPasswords (fst (removePassword P ident v w)) = removeLoop ident 0 (vaultPasswords v)"
proof -
  let ?v2 = "v\<lparr>vaultPasswords := removeLoop ident 0 (vaultPasswords v),
                updatedAt := fst (toISOString w)\<rparr>"
  have "heldToken ?v2 = None"
    using assms by (simp add: heldToken_def)
  then have "heldToken (fst (snd (saveToFile P ?v2 (snd (toISOString w))))) = None"
    by simp
  then show ?thesis
    by (simp add: removePassword_def Let_def caught_def)
qed

lemma exampleVault_noToken [simp]: "heldToken (exampleVault ids) = None"
  by (simp add: heldToken_def exampleVault_def)

text \<open>
  Claim C6 (the code does not do this). \<open>removePassword(id)\<close> should delete the entry whose
  identifier is \<open>id\<close> and leave the others. The loop finds the entry by its identifier
  and then calls \<open>splice(id, 1)\<close>, which deletes by position. In a vault that holds the
  entries 1 and 2 (what is left of 0, 1, 2 after removing 0), \<open>removePassword(1)\<close> deletes
  entry 2 and keeps entry 1.
\<close>

theorem removePassword_deletes_by_position:
  "map passwordId (vaultPasswords (fst (removePassword examplePlatform 1 (exampleVault [1, 2]) exampleWorld))) = [1]"
proof -
  have "removeLoop 1 0 [exampleEntry 1, exampleEntry 2] = [exampleEntry 1]"
    by (simp add: removeLoop.simps [of 1] splice1_def exampleEntry_def)
  then show ?thesis
    by (simp add: removePassword_passwords) (simp add: exampleVault_def exampleEntry_def)
qed

lemma base64ToUint8Array_roundTrip:
  "base64RoundTrip P \<Longrightarrow> base64ToUint8Array P (uint8ArrayToBase64 P bs) = Inr bs"
  by (simp add: base64RoundTrip_def base64ToUint8Array_def)

lemma last_is_Max:
  fixes xs :: "int list"
  assumes "sorted_wrt (<) xs" and "xs \<noteq> []"
  shows "last xs = Max (set xs)"
  using assms
proof (induction xs)
  case Nil
  then show ?case by simp
next
  case (Cons x xs)
  show ?case
  proof (cases "xs = []")
    case True
    then show ?thesis by simp
  next
    case False
    have IH: "last xs = Max (set xs)"
      using Cons False by simp
    have "Max (set xs) \<in> set xs"
      using False by simp
    then have "x < Max (set xs)"
      using Cons.prems by auto
    then have "Max (insert x (set xs)) = Max (set xs)"
      using False by (simp add: max_def)
    then show ?thesis
      using False IH by simp
  qed
qed

lemma last_id_is_Max:
  assumes "increasingIds ps" and "ps \<noteq> []"
  shows "passwordId (last ps) = Max (passwordId ` set ps)"
proof -
  have "last (map passwordId ps) = Max (set (map passwordId ps))"
    using assms by (intro last_is_Max) (simp_all add: increasingIds_def)
  then show ?thesis
    using assms by (simp add: last_map)
qed

lemma increasingIds_append:
  assumes "increasingIds ps"
    and "passwordId p = (if ps = [] then 0 else passwordId (last ps) + 1)"
  shows "increasingIds (ps @ [p])"
proof (cases "ps = []")
  case True
  then show ?thesis by (simp add: increasingIds_def)
next
  case False
  have "\<forall>q \<in> set ps. passwordId q \<le> passwordId (last ps)"
    using last_id_is_Max [OF assms(1) False] by simp
  then show ?thesis
    using assms False by (auto simp: increasingIds_def sorted_wrt_append)
qed

lemma byte_char_roundTrip: "(word_of_nat (unat (b::byte) mod 256) :: byte) = b"
proof -
  have "unat b < 256"
    using unsigned_less [of b, where 'a = nat] by simp
  then show ?thesis by simp
qed

lemma examplePlatform_base64 [simp]: "base64RoundTrip examplePlatform"
proof -
  have "map (\<lambda>c. (word_of_nat (of_char c) :: byte)) (map (\<lambda>b. char_of (unat b)) bs) = bs" for bs
    by (induction bs) (simp_all add: byte_char_roundTrip)
  then show ?thesis
    by (simp add: base64RoundTrip_def examplePlatform_def)
qed

lemma exampleVault_key [simp]: "length (derivedKey (exampleVault ids)) = 32"
  by (simp add: exampleVault_def)

lemma length_keyBytes [simp]: "length (keyBytes k) = 32"
  by (simp add: keyBytes_def)

lemma length_deriveKey [simp]: "length (deriveKey P s mp sk) = 32"
  by (simp add: deriveKey_def)

lemma setVerificationToken_ok:
  assumes "length (derivedKey v) = 32"
  shows "\<exists>a b c. setVerificationToken P v w =
           (None, v\<lparr>verificationToken := a, verificationIV := b, verificationTag := c\<rparr>,
            w\<lparr>randomPos := randomPos w + 16\<rparr>)"
proof -
  obtain r where "encrypt (derivedKey v) (fst (generateRandomIV w))
                    (stringToUint8Array P (verificationPlaintext v)) [] = Inr r"
    using encrypt_ok [OF assms] by blast
  then show ?thesis
    by (simp add: setVerificationToken_def Let_def generateRandomIV_def getRandomValues_def)
      blast
qed

lemma saveToFile_ok:
  assumes "length (derivedKey v) = 32"
  shows "\<exists>a b c v'. saveToFile P v w =
           (None, v',
            w\<lparr>clockPos := clockPos w + 1, randomPos := randomPos w + 16,
              vaultFiles := (vaultFiles w)(user v \<mapsto> userData P v')\<rparr>) \<and>
           v' = v\<lparr>version := increment (version v), updatedAt := clockSource w (clockPos w),
                  verificationPlaintext :=
                    sha256 P (stringifyVaultPasswords P (vaultPasswords v)),
                  verificationToken := a, verificationIV := b, verificationTag := c\<rparr>"
proof -
  let ?v3 = "v\<lparr>version := increment (version v), updatedAt := fst (toISOString w),
                verificationPlaintext := sha256 P (stringifyVaultPasswords P (vaultPasswords v))\<rparr>"
  have k: "length (derivedKey ?v3) = 32"
    using assms by simp
  from setVerificationToken_ok [OF k, of P "snd (toISOString w)"]
  obtain a b c where r: "setVerificationToken P ?v3 (snd (toISOString w)) =
      (None, ?v3\<lparr>verificationToken := a, verificationIV := b, verificationTag := c\<rparr>,
       (snd (toISOString w))\<lparr>randomPos := randomPos (snd (toISOString w)) + 16\<rparr>)"
    by blast
  show ?thesis
    by (simp add: saveToFile_def Let_def r writeVaultFile_def) (simp add: toISOString_def, blast)
qed

lemma verifyPassword_missing_field:
  assumes "verificationToken v = [] \<or> verificationIV v = [] \<or> verificationTag v = []"
  shows "verifyPassword P v"
  using assms by (auto simp: verifyPassword_def)

lemma pushPasswords_frame:
  "\<exists>ps. snd (pushPasswords P keys v) = v\<lparr>vaultPasswords := vaultPasswords v @ ps\<rparr>"
proof (induction keys arbitrary: v)
  case Nil
  have "v = v\<lparr>vaultPasswords := vaultPasswords v @ []\<rparr>" by simp
  then show ?case by (metis pushPasswords.simps(1) snd_conv)
next
  case (Cons key keys)
  show ?case
  proof (cases "newPassword P key")
    case (Inl e)
    have "v = v\<lparr>vaultPasswords := vaultPasswords v @ []\<rparr>" by simp
    then show ?thesis using Inl by (metis pushPasswords.simps(2) snd_conv sum.simps(5))
  next
    case (Inr p)
    from Cons.IH [of "v\<lparr>vaultPasswords := vaultPasswords v @ [p]\<rparr>"]
    obtain ps where "snd (pushPasswords P keys (v\<lparr>vaultPasswords := vaultPasswords v @ [p]\<rparr>))
        = v\<lparr>vaultPasswords := vaultPasswords v @ [p]\<rparr>
            \<lparr>vaultPasswords := vaultPasswords (v\<lparr>vaultPasswords := vaultPasswords v @ [p]\<rparr>) @ ps\<rparr>"
      by blast
    then have "snd (pushPasswords P (key # keys) v) = v\<lparr>vaultPasswords := vaultPasswords v @ (p # ps)\<rparr>"
      using Inr by simp
    then show ?thesis by blast
  qed
qed

lemma pushPasswords_ok:
  assumes "list_all (\<lambda>key. \<not> isl (newPassword P key)) keys"
  shows "fst (pushPasswords P keys v) = None"
  using assms
proof (induction keys arbitrary: v)
  case Nil
  then show ?case by simp
next
  case (Cons key keys)
  then obtain p where "newPassword P key = Inr p"
    by (cases "newPassword P key") auto
  with Cons show ?case by simp
qed


lemma createFromFile_missing:
  assumes stored: "vaultFiles w (user v) = Some content"
    and lack: "doc_verificationToken content = None \<or> doc_verificationIV content = None \<or>
               doc_verificationTag content = None"
    and fresh: "verificationToken v = []" "verificationIV v = []" "verificationTag v = []"
    and dec: "list_all (\<lambda>key. \<not> isl (newPassword P key)) (doc_passwords content)"
  shows "\<exists>v1. createFromFile P v w = (None, v1) \<and>
           (verificationToken v1 = [] \<or> verificationIV v1 = [] \<or> verificationTag v1 = []) \<and>
           user v1 = user v \<and> secretKey v1 = secretKey v \<and> salt v1 = doc_salt content"
proof -
  let ?v1 = "v\<lparr>createdAt := doc_createdAt content,
               updatedAt := (if doc_updatedAt content = [] then doc_createdAt content
                             else doc_updatedAt content),
               version := doc_version content, salt := doc_salt content\<rparr>"
  let ?r = "pushPasswords P (doc_passwords content) ?v1"
  have ok: "fst ?r = None"
    using dec by (rule pushPasswords_ok)
  obtain ps where fr: "snd ?r = ?v1\<lparr>vaultPasswords := vaultPasswords ?v1 @ ps\<rparr>"
    using pushPasswords_frame by blast
  show ?thesis
  proof (cases "doc_verificationToken content")
    case None
    then show ?thesis
      using stored ok fr fresh by (simp add: createFromFile_def Let_def)
  next
    case (Some t)
    then have "doc_verificationIV content = None \<or> doc_verificationTag content = None"
      using lack by simp
    then show ?thesis
      using stored ok fr Some by (auto simp: createFromFile_def Let_def)
  qed
qed

lemma newVault_fresh:
  "verificationToken (fst (newVault P u w)) = [] \<and> verificationIV (fst (newVault P u w)) = [] \<and>
   verificationTag (fst (newVault P u w)) = [] \<and> user (fst (newVault P u w)) = u \<and>
   vaultPasswords (fst (newVault P u w)) = [] \<and>
   vaultFiles (snd (newVault P u w)) = vaultFiles w \<and>
   keyFiles (snd (newVault P u w)) = keyFiles w"
  by (simp add: newVault_def Let_def generateRandomBytes_def getRandomValues_def toISOString_def)

text \<open>
  Claim C9. A fresh \<open>Vault\<close> object opens a stored document that lacks the
  \<open>verificationToken\<close>, \<open>verificationIV\<close> or \<open>verificationTag\<close> field and whose entries
  decode. The document loads, \<open>verifyPassword\<close> on the loaded state is true whatever key
  \<open>k\<close> is held (nothing is decrypted), and \<open>factory\<close> with \<open>isNew = false\<close> succeeds under
  every master password, leaving the vault keyed by that password.
\<close>

theorem opens_without_verification_fields:
  fixes P :: Platform and u :: string and w0 :: World
  defines "v0 \<equiv> fst (newVault P u w0)" and "w \<equiv> snd (newVault P u w0)"
  assumes stored: "vaultFiles w0 u = Some content"
    and lack: "doc_verificationToken content = None \<or> doc_verificationIV content = None \<or>
               doc_verificationTag content = None"
    and dec: "list_all (\<lambda>key. \<not> isl (newPassword P key)) (doc_passwords content)"
  shows "\<exists>v1 v' w'. createFromFile P v0 w = (None, v1) \<and>
           verifyPassword P (v1\<lparr>derivedKey := k\<rparr>) \<and>
           factory P masterPassword False v0 w = (None, v', w') \<and>
           derivedKey v' = deriveKey P (doc_salt content) masterPassword (secretKey v')"
proof -
  have fresh: "verificationToken v0 = []" "verificationIV v0 = []" "verificationTag v0 = []"
    "user v0 = u" "vaultFiles w = vaultFiles w0"
    using newVault_fresh [of P u w0] by (simp_all add: v0_def w_def)
  have stored0: "vaultFiles w (user v0) = Some content"
    using stored fresh by simp
  from createFromFile_missing [OF stored0 lack fresh(1-3) dec]
  obtain v1 where v1: "createFromFile P v0 w = (None, v1)"
    "verificationToken v1 = [] \<or> verificationIV v1 = [] \<or> verificationTag v1 = []"
    by blast
  have vp: "verifyPassword P (v1\<lparr>derivedKey := k\<rparr>)"
    using v1(2) by (intro verifyPassword_missing_field) simp
  define vs where "vs = (case getSecretKey (user v0) w of None \<Rightarrow> v0
                         | Some sk \<Rightarrow> if sk = [] then v0 else v0\<lparr>secretKey := sk\<rparr>)"
  have vs_fresh: "verificationToken vs = []" "verificationIV vs = []" "verificationTag vs = []"
    and vs_user: "user vs = user v0"
    using fresh by (auto simp: vs_def split: option.splits)
  have files: "vaultFiles w (user vs) = Some content"
    using stored0 vs_user by simp
  from createFromFile_missing [OF files lack vs_fresh dec]
  obtain v2 where v2: "createFromFile P vs w = (None, v2)"
    "verificationToken v2 = [] \<or> verificationIV v2 = [] \<or> verificationTag v2 = []"
    "salt v2 = doc_salt content"
    by blast
  let ?v3 = "v2\<lparr>derivedKey := deriveKey P (salt v2) masterPassword (secretKey v2)\<rparr>"
  have ver: "verifyPassword P ?v3"
    using v2(2) by (intro verifyPassword_missing_field) simp
  have "length (derivedKey ?v3) = 32"
    by simp
  from saveToFile_ok [OF this, of P w]
  obtain v' w' where s: "saveToFile P ?v3 w = (None, v', w')" "derivedKey v' = derivedKey ?v3"
    "salt v' = salt ?v3" "secretKey v' = secretKey ?v3"
    by force
  have sk: "secretKey v' = secretKey v2"
    using s by simp
  have "factory P masterPassword False v0 w = (None, v', w')"
    using v2 ver s by (simp add: factory_def Let_def vs_def [symmetric])
  moreover have "derivedKey v' = deriveKey P (doc_salt content) masterPassword (secretKey v')"
    using s v2 sk by simp
  ultimately show ?thesis
    using v1 vp by blast
qed


theorem opens_without_verification_fields_witness:
  "\<exists>v1 v' w'.
     createFromFile examplePlatform (fst (newVault examplePlatform ''alice'' exampleOldWorld))
       (snd (newVault examplePlatform ''alice'' exampleOldWorld)) = (None, v1) \<and>
     verifyPassword examplePlatform (v1\<lparr>derivedKey := []\<rparr>) \<and>
     factory examplePlatform ''not the password'' False
       (fst (newVault examplePlatform ''alice'' exampleOldWorld))
       (snd (newVault examplePlatform ''alice'' exampleOldWorld)) = (None, v', w') \<and>
     derivedKey v' = deriveKey examplePlatform ''salt'' ''not the password'' (secretKey v')"
proof -
  have stored: "vaultFiles exampleOldWorld ''alice'' = Some exampleOldDocument"
    by (simp add: exampleOldWorld_def)
  have lack: "doc_verificationToken exampleOldDocument = None \<or>
              doc_verificationIV exampleOldDocument = None \<or>
              doc_verificationTag exampleOldDocument = None"
    by (simp add: exampleOldDocument_def)
  have dec: "list_all (\<lambda>key. \<not> isl (newPassword examplePlatform key))
               (doc_passwords exampleOldDocument)"
    by (simp add: exampleOldDocument_def newPassword_def base64ToUint8Array_def
        examplePlatform_def)
  have s: "doc_salt exampleOldDocument = ''salt''"
    by (simp add: exampleOldDocument_def)
  from opens_without_verification_fields [OF stored lack dec,
      where k = "[]" and masterPassword = "''not the password''"]
  show ?thesis
    unfolding s .
qed


lemma changeMasterPassword_current_unused:
  assumes "vaultPasswords v = []"
  shows "changeMasterPassword P cur newPw v w = changeMasterPassword P cur' newPw v w"
  using assms by (simp add: changeMasterPassword_def Let_def split: option.splits)

lemma bytesToHex_not_Nil: "bs \<noteq> [] \<Longrightarrow> bytesToHex bs \<noteq> []"
  by (cases bs) (simp_all add: bytesToHex_def byteHex_def)

lemma toString16_not_Nil: "toString16 n \<noteq> []"
  by (simp add: toString16_def toHex_not_Nil)

lemma generateRegistration_ok:
  "generateRegistration P sb pw =
     Inr (bytesToHex sb, toString16 (modPow g (uint (sha256Word P (bytesToHex sb @ pw))) N))"
  by (simp add: generateRegistration_def Let_def bigIntOfHex_sha256)

text \<open>
  Claim C10. In a vault without entries \<open>changeMasterPassword\<close> succeeds for every value of
  \<open>currentPassword\<close>, with the same result for any two values, whenever the key file can
  be read and, if the vault holds a session token, the server accepts it. The vault has a
  fresh salt and the key derived from the new password and that salt, and the file is
  rewritten. With a token the server then holds an SRP verifier of the new password;
  without one the request is skipped and the server's record stays as it was.
\<close>

theorem changeMasterPassword_empty_vault:
  assumes empty: "vaultPasswords v = []"
    and key: "getSecretKey (user v) w = Some sk" "sk \<noteq> []"
    and srv: "case heldToken v of
                None \<Rightarrow> True
              | Some t \<Rightarrow> serverReachable w \<and>
                  (\<exists>uname old. serverTokens w t = Some uname \<and> serverUsers w uname = Some old)"
  shows "\<exists>v' w' srpSalt.
           changeMasterPassword P currentPassword newPw v w = (None, v', w') \<and>
           changeMasterPassword P otherPassword newPw v w = (None, v', w') \<and>
           salt v' = fst (generateRandomBytes P 32 w) \<and>
           derivedKey v' = deriveKey P (salt v') newPw sk \<and>
           vaultFiles w' (user v) = Some (userData P v') \<and>
           (case heldToken v of
              None \<Rightarrow> serverUsers w' = serverUsers w
            | Some t \<Rightarrow>
                (case serverTokens w t of
                   None \<Rightarrow> False
                 | Some uname \<Rightarrow>
                     serverUsers w' uname =
                       Some (srpSalt,
                             toString16 (modPow g (uint (sha256Word P (srpSalt @ newPw))) N))))"
proof -
  define newSalt where "newSalt = fst (generateRandomBytes P 32 w)"
  define w1 where "w1 = snd (generateRandomBytes P 32 w)"
  define newKey where "newKey = deriveKey P newSalt newPw sk"
  define v2 where "v2 = v\<lparr>vaultPasswords := [], salt := newSalt, derivedKey := newKey\<rparr>"
  have k2: "length (derivedKey v2) = 32"
    by (simp add: v2_def newKey_def)
  from setVerificationToken_ok [OF k2, of P w1]
  obtain a b c where st: "setVerificationToken P v2 w1 =
      (None, v2\<lparr>verificationToken := a, verificationIV := b, verificationTag := c\<rparr>,
       w1\<lparr>randomPos := randomPos w1 + 16\<rparr>)"
    by blast
  define v3 where "v3 = v2\<lparr>verificationToken := a, verificationIV := b, verificationTag := c\<rparr>"
  define w3 where "w3 = w1\<lparr>randomPos := randomPos w1 + 16\<rparr>"
  define sb where "sb = fst (getRandomValues 16 w3)"
  define w4 where "w4 = snd (getRandomValues 16 w3)"
  define srpSalt where "srpSalt = bytesToHex sb"
  define verifier where "verifier = toString16 (modPow g (uint (sha256Word P (srpSalt @ newPw))) N)"
  have reg: "generateRegistration P sb newPw = Inr (srpSalt, verifier)"
    by (simp add: generateRegistration_ok srpSalt_def verifier_def)
  have "sb \<noteq> []"
    by (simp add: sb_def getRandomValues_def)
  then have ne: "srpSalt \<noteq> []" "verifier \<noteq> []"
    by (simp_all add: srpSalt_def verifier_def bytesToHex_not_Nil toString16_not_Nil)
  have tok3: "heldToken v3 = heldToken v"
    by (simp add: v3_def v2_def heldToken_def)
  have w4: "serverReachable w4 = serverReachable w" "serverTokens w4 = serverTokens w"
      "serverUsers w4 = serverUsers w"
    by (simp_all add: w4_def w3_def w1_def generateRandomBytes_def getRandomValues_def Let_def)
  have k3: "length (derivedKey v3) = 32"
    using k2 by (simp add: v3_def)
  show ?thesis
  proof (cases "heldToken v")
    case None
    from saveToFile_ok [OF k3, of P w4]
    obtain v' w' where sv: "saveToFile P v3 w4 = (None, v', w')"
      "salt v' = salt v3" "derivedKey v' = derivedKey v3" "user v' = user v3"
      "vaultFiles w' (user v3) = Some (userData P v')" "serverUsers w' = serverUsers w4"
      by force
    have held3: "heldToken v3 = None"
      using None tok3 by simp
    have main: "changeMasterPassword P cp newPw v w = (None, v', w')" for cp
      using empty key
      by (simp add: changeMasterPassword_def Let_def newSalt_def [symmetric] w1_def [symmetric]
          newKey_def [symmetric] v2_def [symmetric] st caught_def v3_def [symmetric]
          w3_def [symmetric] sb_def [symmetric] w4_def [symmetric] reg held3 sv)
    have "salt v' = newSalt" "derivedKey v' = deriveKey P (salt v') newPw sk"
      "vaultFiles w' (user v) = Some (userData P v')" "serverUsers w' = serverUsers w"
      using sv w4 by (simp_all add: v3_def v2_def newKey_def)
    then show ?thesis
      using main [of currentPassword] main [of otherPassword] None
      unfolding newSalt_def by simp
  next
    case (Some t)
    then obtain uname old where tok: "serverReachable w" "serverTokens w t = Some uname"
        "serverUsers w uname = Some old"
      using srv by auto
    define w5 where "w5 = w4\<lparr>serverUsers := (serverUsers w4)(uname \<mapsto> (srpSalt, verifier))\<rparr>"
    have post: "postPassword w4 t srpSalt verifier = Some (True, w5)"
      using tok w4 ne by (simp add: postPassword_def w5_def)
    from saveToFile_ok [OF k3, of P w5]
    obtain v' w' where sv: "saveToFile P v3 w5 = (None, v', w')"
      "salt v' = salt v3" "derivedKey v' = derivedKey v3" "user v' = user v3"
      "vaultFiles w' (user v3) = Some (userData P v')" "serverUsers w' = serverUsers w5"
      by force
    have held3: "heldToken v3 = Some t"
      using Some tok3 by simp
    have main: "changeMasterPassword P cp newPw v w = (None, v', w')" for cp
      using empty key
      by (simp add: changeMasterPassword_def Let_def newSalt_def [symmetric] w1_def [symmetric]
          newKey_def [symmetric] v2_def [symmetric] st caught_def v3_def [symmetric]
          w3_def [symmetric] sb_def [symmetric] w4_def [symmetric] reg held3 post sv)
    have "salt v' = newSalt" "derivedKey v' = deriveKey P (salt v') newPw sk"
      "vaultFiles w' (user v) = Some (userData P v')"
      "serverUsers w' uname = Some (srpSalt, verifier)"
      using sv by (simp_all add: v3_def v2_def newKey_def w5_def)
    then show ?thesis
      using main [of currentPassword] main [of otherPassword] Some tok(2)
      unfolding newSalt_def verifier_def by auto
  qed
qed

theorem changeMasterPassword_empty_vault_witness:
  "(\<exists>v' w' srpSalt.
      changeMasterPassword examplePlatform ''anything'' ''new password''
        ((exampleVault [])\<lparr>token := Some ''tok''\<rparr>) exampleOnlineWorld = (None, v', w') \<and>
      changeMasterPassword examplePlatform ''something else'' ''new password''
        ((exampleVault [])\<lparr>token := Some ''tok''\<rparr>) exampleOnlineWorld = (None, v', w') \<and>
      salt v' = fst (generateRandomBytes examplePlatform 32 exampleOnlineWorld) \<and>
      derivedKey v' = deriveKey examplePlatform (salt v') ''new password'' ''secret'' \<and>
      vaultFiles w' ''alice'' = Some (userData examplePlatform v') \<and>
      serverUsers w' ''alice'' =
        Some (srpSalt,
              toString16 (modPow g (uint (sha256Word examplePlatform (srpSalt @ ''new password''))) N))) \<and>
   (\<exists>v' w'.
      changeMasterPassword examplePlatform ''anything'' ''new password''
        (exampleVault []) exampleOnlineWorld = (None, v', w') \<and>
      changeMasterPassword examplePlatform ''something else'' ''new password''
        (exampleVault []) exampleOnlineWorld = (None, v', w') \<and>
      salt v' = fst (generateRandomBytes examplePlatform 32 exampleOnlineWorld) \<and>
      derivedKey v' = deriveKey examplePlatform (salt v') ''new password'' ''secret'' \<and>
      vaultFiles w' ''alice'' = Some (userData examplePlatform v') \<and>
      serverUsers w' = serverUsers exampleOnlineWorld)"
proof
  let ?v = "(exampleVault [])\<lparr>token := Some ''tok''\<rparr>"
  have empty: "vaultPasswords ?v = []"
    by (simp add: exampleVault_def)
  have key: "getSecretKey (user ?v) exampleOnlineWorld = Some ''secret''" "''secret'' \<noteq> []"
    by (simp_all add: getSecretKey_def exampleVault_def exampleOnlineWorld_def exampleWorld_def)
  have held: "heldToken ?v = Some ''tok''"
    by (simp add: heldToken_def)
  have tok: "serverTokens exampleOnlineWorld ''tok'' = Some ''alice''"
    by (simp add: exampleOnlineWorld_def exampleWorld_def)
  have srv: "case heldToken ?v of
               None \<Rightarrow> True
             | Some t \<Rightarrow> serverReachable exampleOnlineWorld \<and>
                 (\<exists>uname old. serverTokens exampleOnlineWorld t = Some uname \<and>
                    serverUsers exampleOnlineWorld uname = Some old)"
    by (simp add: held exampleOnlineWorld_def exampleWorld_def)
  have u: "user ?v = ''alice''"
    by (simp add: exampleVault_def)
  from changeMasterPassword_empty_vault [OF empty key srv,
      where P = examplePlatform and currentPassword = "''anything''"
        and otherPassword = "''something else''" and newPw = "''new password''"]
  show "\<exists>v' w' srpSalt.
      changeMasterPassword examplePlatform ''anything'' ''new password'' ?v exampleOnlineWorld
        = (None, v', w') \<and>
      changeMasterPassword examplePlatform ''something else'' ''new password'' ?v
        exampleOnlineWorld = (None, v', w') \<and>
      salt v' = fst (generateRandomBytes examplePlatform 32 exampleOnlineWorld) \<and>
      derivedKey v' = deriveKey examplePlatform (salt v') ''new password'' ''secret'' \<and>
      vaultFiles w' ''alice'' = Some (userData examplePlatform v') \<and>
      serverUsers w' ''alice'' =
        Some (srpSalt,
              toString16 (modPow g (uint (sha256Word examplePlatform (srpSalt @ ''new password''))) N))"
    unfolding u held by (simp add: tok)
next
  let ?v = "exampleVault []"
  have empty: "vaultPasswords ?v = []"
    by (simp add: exampleVault_def)
  have key: "getSecretKey (user ?v) exampleOnlineWorld = Some ''secret''" "''secret'' \<noteq> []"
    by (simp_all add: getSecretKey_def exampleVault_def exampleOnlineWorld_def exampleWorld_def)
  have held: "heldToken ?v = None"
    by simp
  have srv: "case heldToken ?v of
               None \<Rightarrow> True
             | Some t \<Rightarrow> serverReachable exampleOnlineWorld \<and>
                 (\<exists>uname old. serverTokens exampleOnlineWorld t = Some uname \<and>
                    serverUsers exampleOnlineWorld uname = Some old)"
    by (simp add: held)
  have u: "user ?v = ''alice''"
    by (simp add: exampleVault_def)
  from changeMasterPassword_empty_vault [OF empty key srv,
      where P = examplePlatform and currentPassword = "''anything''"
        and otherPassword = "''something else''" and newPw = "''new password''"]
  show "\<exists>v' w'.
      changeMasterPassword examplePlatform ''anything'' ''new password'' ?v exampleOnlineWorld
        = (None, v', w') \<and>
      changeMasterPassword examplePlatform ''something else'' ''new password'' ?v
        exampleOnlineWorld = (None, v', w') \<and>
      salt v' = fst (generateRandomBytes examplePlatform 32 exampleOnlineWorld) \<and>
      derivedKey v' = deriveKey examplePlatform (salt v') ''new password'' ''secret'' \<and>
      vaultFiles w' ''alice'' = Some (userData examplePlatform v') \<and>
      serverUsers w' = serverUsers exampleOnlineWorld"
    unfolding u held by simp
qed

lemma decryptFields_of_encrypt:
  assumes b64: "base64RoundTrip P" and key: "length key = 32"
  shows "decryptFields P key (uint8ArrayToBase64 P iv)
           (uint8ArrayToBase64 P (ciphertext (projr (encrypt key iv pt []))))
           (uint8ArrayToBase64 P (tag (projr (encrypt key iv pt [])))) = Inr pt"
proof -
  obtain r where r: "encrypt key iv pt [] = Inr r" "decrypt key iv (ciphertext r) (tag r) [] = Inr pt"
    using encrypt_decrypt [OF key] by blast
  then show ?thesis
    by (simp add: decryptFields_def base64ToUint8Array_roundTrip [OF b64])
qed

lemma char_byte_roundTrip: "char_of (unat (word_of_nat (of_char c) :: byte)) = c"
  by (simp add: unat_of_nat)

lemma examplePlatform_utf8 [simp]:
  "uint8ArrayToString examplePlatform (stringToUint8Array examplePlatform s) = s"
proof -
  have "map (\<lambda>b. char_of (unat b)) (map (\<lambda>c. (word_of_nat (of_char c) :: byte)) s) = s"
    by (induction s) (simp_all add: char_byte_roundTrip)
  then show ?thesis
    by (simp add: examplePlatform_def)
qed

lemma importVaultData_mismatch:
  assumes "decryptFields P (derivedKey v) (sync_verificationIV d)
             (sync_verificationCiphertext d) (sync_verificationTag d) = Inr verification"
    and "uint8ArrayToString P verification \<noteq> sha256 P (stringifyEncVault P (sync_vault d))"
  shows "importVaultData P d v =
           (Some RemoteImportVerificationFailed,
            v\<lparr>updatedAt := sync_updatedAt d, salt := sync_salt d\<rparr>)"
  using assms by (simp add: importVaultData_def Let_def)

lemma length_sha256 [simp]: "length (sha256 P s) \<ge> 64"
  by (simp add: sha256_def padStart_def)

lemma sync_import_failed:
  assumes "heldToken v = Some t" and "getVault w t = Ok200 d"
    and "laterThan (dateGetTime P (sync_updatedAt d)) (dateGetTime P (updatedAt v))"
    and "importVaultData P d v = (Some e, v1)"
  shows "sync P v w = (v1, w)"
  using assms by (simp add: sync_def Let_def)

text \<open>
  Claim C5 (the code does not do this). An import whose outer envelope does not decrypt to
  the SHA-256 of the inner envelope should leave the local vault as it was.
  \<open>importVaultData\<close> assigns \<open>updatedAt\<close> and \<open>salt\<close> from the remote document before it
  checks anything: with a remote document whose outer envelope seals another text, it
  throws, and the vault of \<open>exampleVault [0]\<close> is left with the remote \<open>updatedAt\<close> and
  \<open>salt\<close>, also after the \<open>sync\<close> that called it.
\<close>

theorem importVaultData_overwrites_before_check:
  "importVaultData examplePlatform (exampleRemote ''not the digest'') (exampleVault [0]) =
     (Some RemoteImportVerificationFailed,
      (exampleVault [0])\<lparr>updatedAt := ''tttt'', salt := ''other salt''\<rparr>) \<and>
   updatedAt (exampleVault [0]) = ''t'' \<and> salt (exampleVault [0]) = ''salt'' \<and>
   sync examplePlatform ((exampleVault [0])\<lparr>token := Some ''tok''\<rparr>)
     (exampleSyncWorld (exampleRemote ''not the digest'')) =
     ((exampleVault [0])\<lparr>token := Some ''tok'', updatedAt := ''tttt'', salt := ''other salt''\<rparr>,
      exampleSyncWorld (exampleRemote ''not the digest''))"
proof -
  let ?d = "exampleRemote ''not the digest''"
  have k: "derivedKey (exampleVault [0]) = replicate 32 0"
    by (simp add: exampleVault_def)
  have dec: "decryptFields examplePlatform (derivedKey (exampleVault [0]))
               (sync_verificationIV ?d) (sync_verificationCiphertext ?d) (sync_verificationTag ?d)
             = Inr (stringToUint8Array examplePlatform ''not the digest'')"
    unfolding k by (simp add: exampleRemote_def Let_def decryptFields_of_encrypt)
  have ne: "uint8ArrayToString examplePlatform
              (stringToUint8Array examplePlatform ''not the digest'') \<noteq>
            sha256 examplePlatform (stringifyEncVault examplePlatform (sync_vault ?d))"
  proof
    assume "uint8ArrayToString examplePlatform
              (stringToUint8Array examplePlatform ''not the digest'') =
            sha256 examplePlatform (stringifyEncVault examplePlatform (sync_vault ?d))"
    then have "length (sha256 examplePlatform
                 (stringifyEncVault examplePlatform (sync_vault ?d))) = length ''not the digest''"
      by simp
    moreover have "length (sha256 examplePlatform
                     (stringifyEncVault examplePlatform (sync_vault ?d))) \<ge> 64"
      by (rule length_sha256)
    ultimately show False by simp
  qed
  have imp: "importVaultData examplePlatform ?d (exampleVault [0]) =
          (Some RemoteImportVerificationFailed,
           (exampleVault [0])\<lparr>updatedAt := sync_updatedAt ?d, salt := sync_salt ?d\<rparr>)"
    using dec ne by (rule importVaultData_mismatch)
  let ?vt = "(exampleVault [0])\<lparr>token := Some ''tok''\<rparr>"
  have dect: "decryptFields examplePlatform (derivedKey ?vt)
               (sync_verificationIV ?d) (sync_verificationCiphertext ?d) (sync_verificationTag ?d)
             = Inr (stringToUint8Array examplePlatform ''not the digest'')"
    using dec by simp
  have impt: "importVaultData examplePlatform ?d ?vt =
          (Some RemoteImportVerificationFailed,
           ?vt\<lparr>updatedAt := sync_updatedAt ?d, salt := sync_salt ?d\<rparr>)"
    using dect ne by (rule importVaultData_mismatch)
  have t: "heldToken ?vt = Some ''tok''"
    by (simp add: heldToken_def)
  have gv: "getVault (exampleSyncWorld ?d) ''tok'' = Ok200 ?d"
    by (simp add: getVault_def exampleSyncWorld_def exampleWorld_def)
  have upd: "sync_updatedAt ?d = ''tttt''" "sync_salt ?d = ''other salt''"
    by (simp_all add: exampleRemote_def Let_def)
  have later: "laterThan (dateGetTime examplePlatform (sync_updatedAt ?d))
                 (dateGetTime examplePlatform (updatedAt ?vt))"
    by (simp add: upd laterThan_def examplePlatform_def exampleVault_def)
  have "sync examplePlatform ?vt (exampleSyncWorld ?d) =
          (?vt\<lparr>updatedAt := sync_updatedAt ?d, salt := sync_salt ?d\<rparr>, exampleSyncWorld ?d)"
    using t gv later impt by (rule sync_import_failed)
  then show ?thesis
    using imp by (simp add: upd) (simp add: exampleVault_def)
qed

lemma sync_download:
  assumes "heldToken v = Some t" and "getVault w t = Ok200 d"
    and "laterThan (dateGetTime P (sync_updatedAt d)) (dateGetTime P (updatedAt v))"
    and "importVaultData P d v = (None, v1)"
  shows "sync P v w = caught (saveToFile P v1 w)"
  using assms by (simp add: sync_def Let_def)

lemma importVaultData_ok:
  assumes "decryptFields P (derivedKey v) (sync_verificationIV d)
             (sync_verificationCiphertext d) (sync_verificationTag d) = Inr verification"
    and "uint8ArrayToString P verification = sha256 P (stringifyEncVault P (sync_vault d))"
    and "decryptFields P (derivedKey v) (vault_iv (sync_vault d))
           (vault_ciphertext (sync_vault d)) (vault_tag (sync_vault d)) = Inr plain"
    and "parsePasswordObjects P (uint8ArrayToString P plain) = Some passwords"
  shows "importVaultData P d v =
           pushPasswords P passwords
             (v\<lparr>updatedAt := sync_updatedAt d, salt := sync_salt d, vaultPasswords := []\<rparr>)"
  using assms by (simp add: importVaultData_def Let_def)

text \<open>
  Claim C4 (the code does not do this). After a download the local vault should carry the
  remote entries and the remote \<open>updatedAt\<close>, and the file's version should not be
  incremented. \<open>sync\<close> saves with \<open>saveToFile\<close>, which increments the version and sets
  \<open>updatedAt\<close> to the clock, where \<open>mergeFromRemote\<close> uses
  \<open>saveToFileWithoutVersionBump\<close>. With a remote document newer than \<open>exampleVault [0]\<close>
  (version 1) that passes the integrity check, the local entries are the remote entry 7,
  but the version is 2, in memory and in the file, and \<open>updatedAt\<close> is the clock's
  \<open>t\<close>, not the remote \<open>tttt\<close>.
\<close>

theorem sync_download_bumps_version:
  "map passwordId (vaultPasswords (fst (sync examplePlatform
     ((exampleVault [0])\<lparr>token := Some ''tok''\<rparr>) (exampleSyncWorld exampleGoodRemote)))) = [7] \<and>
   version (fst (sync examplePlatform
     ((exampleVault [0])\<lparr>token := Some ''tok''\<rparr>) (exampleSyncWorld exampleGoodRemote))) = 2 \<and>
   updatedAt (fst (sync examplePlatform
     ((exampleVault [0])\<lparr>token := Some ''tok''\<rparr>) (exampleSyncWorld exampleGoodRemote))) = ''t'' \<and>
   map_option doc_version (vaultFiles (snd (sync examplePlatform
     ((exampleVault [0])\<lparr>token := Some ''tok''\<rparr>) (exampleSyncWorld exampleGoodRemote))) ''alice'')
     = Some 2 \<and>
   version (exampleVault [0]) = 1 \<and> sync_updatedAt exampleGoodRemote = ''tttt''"
proof -
  let ?d = exampleGoodRemote
  let ?vt = "(exampleVault [0])\<lparr>token := Some ''tok''\<rparr>"
  let ?w = "exampleSyncWorld ?d"
  have k: "derivedKey ?vt = replicate 32 0"
    by (simp add: exampleVault_def)
  have sv: "sync_vault ?d = exampleEncVault"
    by (simp add: exampleGoodRemote_def exampleRemote_def Let_def)
  have dec1: "decryptFields examplePlatform (derivedKey ?vt)
               (sync_verificationIV ?d) (sync_verificationCiphertext ?d) (sync_verificationTag ?d)
             = Inr (stringToUint8Array examplePlatform
                      (sha256 examplePlatform (stringifyEncVault examplePlatform exampleEncVault)))"
    unfolding k
    by (simp add: exampleGoodRemote_def exampleRemote_def Let_def decryptFields_of_encrypt)
  have dec2: "decryptFields examplePlatform (derivedKey ?vt) (vault_iv (sync_vault ?d))
                (vault_ciphertext (sync_vault ?d)) (vault_tag (sync_vault ?d))
              = Inr (stringToUint8Array examplePlatform ''entries'')"
    unfolding k sv by (simp add: exampleEncVault_def Let_def decryptFields_of_encrypt)
  have dg: "uint8ArrayToString examplePlatform
              (stringToUint8Array examplePlatform
                 (sha256 examplePlatform (stringifyEncVault examplePlatform exampleEncVault))) =
            sha256 examplePlatform (stringifyEncVault examplePlatform (sync_vault ?d))"
    by (simp add: sv)
  have parse: "parsePasswordObjects examplePlatform
                 (uint8ArrayToString examplePlatform
                    (stringToUint8Array examplePlatform ''entries'')) = Some [exampleObject]"
    by (simp add: examplePlatform_def)
  have upd: "sync_updatedAt ?d = ''tttt''" "sync_salt ?d = ''other salt''"
    by (simp_all add: exampleGoodRemote_def exampleRemote_def Let_def)
  obtain p where p: "newPassword examplePlatform exampleObject = Inr p" "passwordId p = 7"
    by (simp add: newPassword_def base64ToUint8Array_def examplePlatform_def exampleObject_def)
  define v1 where "v1 = ?vt\<lparr>updatedAt := ''tttt'', salt := ''other salt'', vaultPasswords := [p]\<rparr>"
  have imp: "importVaultData examplePlatform ?d ?vt = (None, v1)"
    using importVaultData_ok [OF dec1 dg dec2 parse] p by (simp add: upd v1_def)
  have t: "heldToken ?vt = Some ''tok''"
    by (simp add: heldToken_def)
  have gv: "getVault ?w ''tok'' = Ok200 ?d"
    by (simp add: getVault_def exampleSyncWorld_def exampleWorld_def)
  have later: "laterThan (dateGetTime examplePlatform (sync_updatedAt ?d))
                 (dateGetTime examplePlatform (updatedAt ?vt))"
    by (simp add: upd laterThan_def examplePlatform_def exampleVault_def)
  have s: "sync examplePlatform ?vt ?w = caught (saveToFile examplePlatform v1 ?w)"
    using t gv later imp by (rule sync_download)
  have k1: "length (derivedKey v1) = 32"
    by (simp add: v1_def exampleVault_def)
  from saveToFile_ok [OF k1, of examplePlatform ?w]
  obtain v' w' where sf: "saveToFile examplePlatform v1 ?w = (None, v', w')"
    "vaultPasswords v' = vaultPasswords v1" "version v' = increment (version v1)"
    "updatedAt v' = clockSource ?w (clockPos ?w)"
    "vaultFiles w' (user v1) = Some (userData examplePlatform v')"
    by force
  have "fst (sync examplePlatform ?vt ?w) = v'" "snd (sync examplePlatform ?vt ?w) = w'"
    using s sf by (simp_all add: caught_def)
  moreover have "map passwordId (vaultPasswords v') = [7]" "version v' = 2" "updatedAt v' = ''t''"
    "map_option doc_version (vaultFiles w' ''alice'') = Some 2"
    using sf p
    by (simp_all add: v1_def exampleVault_def exampleSyncWorld_def exampleWorld_def userData_def
        increment_safe)
  moreover have "version (exampleVault [0]) = 1"
    by (simp add: exampleVault_def)
  ultimately show ?thesis
    using upd by simp
qed

subsection \<open>Creating and opening a vault\<close>

lemma verifyPassword_decryptFields:
  "verifyPassword P v =
     (if verificationToken v = [] \<or> verificationIV v = [] \<or> verificationTag v = [] then True
      else (case decryptFields P (derivedKey v) (verificationIV v) (verificationToken v)
                   (verificationTag v) of
              Inl e \<Rightarrow> False
            | Inr d \<Rightarrow> uint8ArrayToString P d =
                        sha256 P (stringifyVaultPasswords P (vaultPasswords v))))"
  by (simp add: verifyPassword_def decryptFields_def)

lemma sealed_verifies:
  assumes b64: "base64RoundTrip P" and dig: "digestRoundTrip P"
    and key: "length (derivedKey v) = 32" and s: "sealed P v"
  shows "verifyPassword P v"
proof -
  let ?pt = "stringToUint8Array P (sha256 P (stringifyVaultPasswords P (vaultPasswords v)))"
  from s obtain iv where f: "verificationIV v = uint8ArrayToBase64 P iv"
      "verificationToken v =
         uint8ArrayToBase64 P (ciphertext (projr (encrypt (derivedKey v) iv ?pt [])))"
      "verificationTag v =
         uint8ArrayToBase64 P (tag (projr (encrypt (derivedKey v) iv ?pt [])))"
    unfolding sealed_def by blast
  have "decryptFields P (derivedKey v) (verificationIV v) (verificationToken v)
          (verificationTag v) = Inr ?pt"
    unfolding f by (rule decryptFields_of_encrypt [OF b64 key])
  then show ?thesis
    using dig by (simp add: verifyPassword_decryptFields digestRoundTrip_def)
qed

lemma sealed_cong:
  assumes "sealed P v" "derivedKey v' = derivedKey v" "vaultPasswords v' = vaultPasswords v"
    "verificationIV v' = verificationIV v" "verificationToken v' = verificationToken v"
    "verificationTag v' = verificationTag v"
  shows "sealed P v'"
  using assms unfolding sealed_def by simp

lemma setVerificationToken_sealed:
  assumes "length (derivedKey v) = 32"
  shows "setVerificationToken P v w =
           (None,
            v\<lparr>verificationToken := uint8ArrayToBase64 P (ciphertext (projr
                 (encrypt (derivedKey v) (fst (generateRandomIV w))
                    (stringToUint8Array P (verificationPlaintext v)) []))),
              verificationIV := uint8ArrayToBase64 P (fst (generateRandomIV w)),
              verificationTag := uint8ArrayToBase64 P (tag (projr
                 (encrypt (derivedKey v) (fst (generateRandomIV w))
                    (stringToUint8Array P (verificationPlaintext v)) [])))\<rparr>,
            snd (generateRandomIV w))"
proof -
  obtain r where "encrypt (derivedKey v) (fst (generateRandomIV w))
                    (stringToUint8Array P (verificationPlaintext v)) [] = Inr r"
    using encrypt_ok [OF assms] by blast
  then show ?thesis
    by (simp add: setVerificationToken_def Let_def)
qed

lemma saveToFile_sealed:
  assumes key: "length (derivedKey v) = 32"
  shows "\<exists>v' w'. saveToFile P v w = (None, v', w') \<and> sealed P v' \<and>
           vaultFiles w' = (vaultFiles w)(user v \<mapsto> userData P v') \<and>
           keyFiles w' = keyFiles w \<and> encryptionAvailable w' = encryptionAvailable w \<and>
           user v' = user v \<and> vaultPasswords v' = vaultPasswords v \<and> salt v' = salt v \<and>
           secretKey v' = secretKey v \<and> derivedKey v' = derivedKey v"
proof -
  let ?v3 = "v\<lparr>version := increment (version v), updatedAt := fst (toISOString w),
                verificationPlaintext := sha256 P (stringifyVaultPasswords P (vaultPasswords v))\<rparr>"
  let ?w3 = "snd (toISOString w)"
  have k: "length (derivedKey ?v3) = 32"
    using key by simp
  let ?v4 = "fst (snd (setVerificationToken P ?v3 ?w3))"
  let ?w4 = "snd (snd (setVerificationToken P ?v3 ?w3))"
  note tok = setVerificationToken_sealed [OF k, of P ?w3]
  have s: "saveToFile P v w = (None, ?v4, writeVaultFile (userData P ?v4) (user ?v4) ?w4)"
    by (simp add: saveToFile_def Let_def tok)
  have "sealed P ?v4"
    unfolding sealed_def
    by (rule exI [of _ "fst (generateRandomIV ?w3)"]) (simp add: tok)
  moreover have "user ?v4 = user v" "vaultPasswords ?v4 = vaultPasswords v" "salt ?v4 = salt v"
      "secretKey ?v4 = secretKey v" "derivedKey ?v4 = derivedKey v"
    by (simp_all add: tok)
  moreover have "vaultFiles ?w4 = vaultFiles w" "keyFiles ?w4 = keyFiles w"
      "encryptionAvailable ?w4 = encryptionAvailable w"
    by (simp_all add: tok) (simp_all add: generateRandomIV_def getRandomValues_def toISOString_def)
  ultimately show ?thesis
    using s by (simp add: writeVaultFile_def)
qed

lemma createFromFile_own:
  assumes stored: "vaultFiles w (user v) = Some (userData P v0)"
    and none: "vaultPasswords v0 = []"
  shows "createFromFile P v w =
           (None,
            v\<lparr>createdAt := createdAt v0,
              updatedAt := (if updatedAt v0 = [] then createdAt v0 else updatedAt v0),
              version := version v0, salt := salt v0,
              verificationToken := verificationToken v0,
              verificationIV := verificationIV v0,
              verificationTag := verificationTag v0\<rparr>)"
  using stored none by (simp add: createFromFile_def userData_def Let_def)


text \<open>A function from the passwords to the 256-bit words takes some value twice.\<close>

lemma not_injective_on_passwords:
  fixes f :: "string \<Rightarrow> 256 word"
  shows "\<exists>x y. x \<noteq> y \<and> f x = f y"
proof (rule ccontr)
  assume "\<not> (\<exists>x y. x \<noteq> y \<and> f x = f y)"
  then have "inj f"
    by (auto simp: inj_def)
  moreover have "finite (range f)"
    by (rule finite_subset [OF subset_UNIV]) simp
  ultimately have "finite (UNIV :: string set)"
    by (rule finite_imageD [rotated])
  then show False
    using infinite_UNIV_listI by blast
qed

lemma colliding_passwords:
  "\<exists>mp pw. mp \<noteq> pw \<and> deriveKey P s mp sk = deriveKey P s pw sk"
proof -
  obtain x y where "x \<noteq> y" "pbkdf2Word P (x @ sk) s 600000 = pbkdf2Word P (y @ sk) s 600000"
    using not_injective_on_passwords [of "\<lambda>p. pbkdf2Word P (p @ sk) s 600000"] by blast
  then show ?thesis
    unfolding deriveKey_def by metis
qed

lemma createVault_cases:
  "\<exists>v6 w5. createVault P u mp w0 =
            (if verifyPassword P v6 then saveToFile P v6 w5
             else (Some PasswordVerificationFailed, v6, w5)) \<and>
     sealed P v6 \<and> user v6 = u \<and> vaultPasswords v6 = [] \<and>
     salt v6 = salt (fst (newVault P u w0)) \<and>
     secretKey v6 = secretKey (fst (newVault P u w0)) \<and>
     derivedKey v6 = deriveKey P (salt v6) mp (secretKey v6) \<and>
     encryptionAvailable w5 = encryptionAvailable w0 \<and>
     (if encryptionAvailable w0 then keyFiles w5 u = Some (secretKey v6)
      else keyFiles w5 = keyFiles w0)"
proof -
  let ?v0 = "fst (newVault P u w0)"
  let ?wn = "snd (newVault P u w0)"
  let ?k = "deriveKey P (salt ?v0) mp (secretKey ?v0)"
  have n: "user ?v0 = u" "vaultPasswords ?v0 = []" "keyFiles ?wn = keyFiles w0"
      "encryptionAvailable ?wn = encryptionAvailable w0"
    by (simp_all add: newVault_def Let_def generateRandomBytes_def getRandomValues_def
        toISOString_def)
  have k: "length (derivedKey (?v0\<lparr>derivedKey := ?k\<rparr>)) = 32"
    by simp
  from saveToFile_sealed [OF k, of P ?wn]
  obtain v4 w4 where s4: "saveToFile P (?v0\<lparr>derivedKey := ?k\<rparr>) ?wn = (None, v4, w4)"
    and v4: "sealed P v4" "user v4 = u" "vaultPasswords v4 = []" "salt v4 = salt ?v0"
      "secretKey v4 = secretKey ?v0" "derivedKey v4 = ?k"
    and w4: "vaultFiles w4 = (vaultFiles ?wn)(u \<mapsto> userData P v4)" "keyFiles w4 = keyFiles w0"
      "encryptionAvailable w4 = encryptionAvailable w0"
    using n by auto
  let ?w5 = "storeSecretKey u (secretKey v4) w4"
  have w5: "vaultFiles ?w5 (user v4) = Some (userData P v4)"
      "encryptionAvailable ?w5 = encryptionAvailable w0"
      "if encryptionAvailable w0 then keyFiles ?w5 u = Some (secretKey v4)
       else keyFiles ?w5 = keyFiles w0"
    using w4 v4 by (simp_all add: storeSecretKey_def)
  let ?v5 = "v4\<lparr>createdAt := createdAt v4,
               updatedAt := (if updatedAt v4 = [] then createdAt v4 else updatedAt v4),
               version := version v4, salt := salt v4,
               verificationToken := verificationToken v4,
               verificationIV := verificationIV v4,
               verificationTag := verificationTag v4\<rparr>"
  have c: "createFromFile P v4 ?w5 = (None, ?v5)"
    by (rule createFromFile_own [OF w5(1) v4(3)])
  define v6 where "v6 = ?v5\<lparr>derivedKey := deriveKey P (salt ?v5) mp (secretKey ?v5)\<rparr>"
  define w5 where "w5 = ?w5"
  have same: "derivedKey v6 = derivedKey v4"
    using v4 by (simp add: v6_def)
  have s6: "sealed P v6"
    by (rule sealed_cong [OF v4(1) same]) (simp_all add: v6_def)
  have r: "createVault P u mp w0 =
          (if verifyPassword P v6 then saveToFile P v6 w5
           else (Some PasswordVerificationFailed, v6, w5))"
    using v4(2) by (simp add: createVault_def factory_def Let_def s4 c v6_def w5_def)
  have f: "user v6 = u" "vaultPasswords v6 = []" "salt v6 = salt ?v0"
      "secretKey v6 = secretKey ?v0"
      "derivedKey v6 = deriveKey P (salt v6) mp (secretKey v6)"
    using v4 by (simp_all add: v6_def)
  have g: "encryptionAvailable w5 = encryptionAvailable w0"
      "if encryptionAvailable w0 then keyFiles w5 u = Some (secretKey v6)
       else keyFiles w5 = keyFiles w0"
    using w5(2,3) v4(5) f(4) by (auto simp: w5_def split: if_splits)
  show ?thesis
    using r s6 f g by blast
qed

lemma created_vault:
  assumes created: "createVault P u mp w0 = (None, vc, w1)"
  shows "vaultFiles w1 u = Some (userData P vc) \<and> vaultPasswords vc = [] \<and> sealed P vc \<and>
         salt vc = salt (fst (newVault P u w0)) \<and>
         secretKey vc = secretKey (fst (newVault P u w0)) \<and>
         derivedKey vc = deriveKey P (salt vc) mp (secretKey vc) \<and>
         encryptionAvailable w1 = encryptionAvailable w0 \<and>
         (if encryptionAvailable w0 then keyFiles w1 u = Some (secretKey vc)
          else keyFiles w1 = keyFiles w0)"
proof -
  from createVault_cases [of P u mp w0]
  obtain v6 w5 where r: "createVault P u mp w0 =
        (if verifyPassword P v6 then saveToFile P v6 w5
         else (Some PasswordVerificationFailed, v6, w5))"
    and v6: "sealed P v6" "user v6 = u" "vaultPasswords v6 = []"
      "salt v6 = salt (fst (newVault P u w0))"
      "secretKey v6 = secretKey (fst (newVault P u w0))"
      "derivedKey v6 = deriveKey P (salt v6) mp (secretKey v6)"
    and w5: "encryptionAvailable w5 = encryptionAvailable w0"
      "if encryptionAvailable w0 then keyFiles w5 u = Some (secretKey v6)
       else keyFiles w5 = keyFiles w0"
    by blast
  have ok: "verifyPassword P v6"
    using r created by (auto split: if_splits)
  have k: "length (derivedKey v6) = 32"
    using v6(6) by simp
  from saveToFile_sealed [OF k, of P w5]
  obtain v' w' where s: "saveToFile P v6 w5 = (None, v', w')" "sealed P v'"
      "vaultFiles w' = (vaultFiles w5)(user v6 \<mapsto> userData P v')" "keyFiles w' = keyFiles w5"
      "encryptionAvailable w' = encryptionAvailable w5" "user v' = user v6"
      "vaultPasswords v' = vaultPasswords v6" "salt v' = salt v6" "secretKey v' = secretKey v6"
      "derivedKey v' = derivedKey v6"
    by blast
  have "vc = v'" "w1 = w'"
    using r created ok s(1) by simp_all
  then show ?thesis
    using s v6 w5 by (simp split: if_splits)
qed


lemma createVault_ok:
  assumes b64: "base64RoundTrip P" and dig: "digestRoundTrip P"
  shows "fst (createVault P u mp w0) = None"
proof -
  from createVault_cases [of P u mp w0]
  obtain v6 w5 where r: "createVault P u mp w0 =
        (if verifyPassword P v6 then saveToFile P v6 w5
         else (Some PasswordVerificationFailed, v6, w5))"
    and v6: "sealed P v6" "derivedKey v6 = deriveKey P (salt v6) mp (secretKey v6)"
    by blast
  have k: "length (derivedKey v6) = 32"
    using v6(2) by simp
  have "verifyPassword P v6"
    by (rule sealed_verifies [OF b64 dig k v6(1)])
  moreover obtain v' w' where "saveToFile P v6 w5 = (None, v', w')"
    using saveToFile_sealed [OF k, of P w5] by blast
  ultimately show ?thesis
    using r by simp
qed

lemma openVault_cases:
  assumes stored: "vaultFiles w1 u = Some (userData P vc)" and none: "vaultPasswords vc = []"
  shows "\<exists>v3. openVault P u pw w1 =
            (if verifyPassword P v3 then saveToFile P v3 (snd (newVault P u w1))
             else (Some PasswordVerificationFailed, v3, snd (newVault P u w1))) \<and>
     user v3 = u \<and> vaultPasswords v3 = [] \<and>
     verificationToken v3 = verificationToken vc \<and> verificationIV v3 = verificationIV vc \<and>
     verificationTag v3 = verificationTag vc \<and>
     derivedKey v3 = deriveKey P (salt vc) pw (secretKey v3) \<and>
     secretKey v3 = (case getSecretKey u w1 of
                       None \<Rightarrow> secretKey (fst (newVault P u w1))
                     | Some sk \<Rightarrow> if sk = [] then secretKey (fst (newVault P u w1)) else sk)"
proof -
  let ?v0 = "fst (newVault P u w1)"
  let ?wn = "snd (newVault P u w1)"
  have n: "user ?v0 = u" "vaultPasswords ?v0 = []" "vaultFiles ?wn = vaultFiles w1"
      "getSecretKey u ?wn = getSecretKey u w1"
    by (simp_all add: newVault_def Let_def generateRandomBytes_def getRandomValues_def
        toISOString_def getSecretKey_def)
  define vs where "vs = (case getSecretKey u w1 of None \<Rightarrow> ?v0
                         | Some sk \<Rightarrow> if sk = [] then ?v0 else ?v0\<lparr>secretKey := sk\<rparr>)"
  have vs: "user vs = u" "vaultPasswords vs = []"
      "secretKey vs = (case getSecretKey u w1 of
                         None \<Rightarrow> secretKey ?v0
                       | Some sk \<Rightarrow> if sk = [] then secretKey ?v0 else sk)"
    using n(1,2) by (simp_all add: vs_def split: option.splits)
  have st: "vaultFiles ?wn (user vs) = Some (userData P vc)"
    using stored n(3) vs(1) by simp
  let ?v2 = "vs\<lparr>createdAt := createdAt vc,
              updatedAt := (if updatedAt vc = [] then createdAt vc else updatedAt vc),
              version := version vc, salt := salt vc,
              verificationToken := verificationToken vc,
              verificationIV := verificationIV vc,
              verificationTag := verificationTag vc\<rparr>"
  have c: "createFromFile P vs ?wn = (None, ?v2)"
    by (rule createFromFile_own [OF st none])
  define v3 where "v3 = ?v2\<lparr>derivedKey := deriveKey P (salt ?v2) pw (secretKey ?v2)\<rparr>"
  have r: "openVault P u pw w1 =
            (if verifyPassword P v3 then saveToFile P v3 ?wn
             else (Some PasswordVerificationFailed, v3, ?wn))"
    using n(1) by (simp add: openVault_def factory_def Let_def n(4) vs_def [symmetric] c v3_def)
  have f: "user v3 = u" "vaultPasswords v3 = []"
      "verificationToken v3 = verificationToken vc" "verificationIV v3 = verificationIV vc"
      "verificationTag v3 = verificationTag vc"
      "derivedKey v3 = deriveKey P (salt vc) pw (secretKey v3)"
      "secretKey v3 = (case getSecretKey u w1 of
                         None \<Rightarrow> secretKey ?v0
                       | Some sk \<Rightarrow> if sk = [] then secretKey ?v0 else sk)"
    using vs by (simp_all add: v3_def)
  show ?thesis
    using r f by blast
qed

lemma base64_not_Nil:
  assumes b64: "base64RoundTrip P" and e: "uint8ArrayToBase64 P [] = []" and bs: "bs \<noteq> []"
  shows "uint8ArrayToBase64 P bs \<noteq> []"
proof
  assume "uint8ArrayToBase64 P bs = []"
  then have "atob P (uint8ArrayToBase64 P bs) = atob P (uint8ArrayToBase64 P [])"
    using e by simp
  then show False
    using b64 bs by (simp add: base64RoundTrip_def)
qed

lemma newVault_secretKey_not_Nil:
  assumes b64: "base64RoundTrip P" and e: "uint8ArrayToBase64 P [] = []"
  shows "secretKey (fst (newVault P u w)) \<noteq> []"
proof -
  have "fst (getRandomValues 32 (snd (getRandomValues 32 w))) \<noteq> []"
    using length_getRandomValues [of 32 "snd (getRandomValues 32 w)"] by fastforce
  then show ?thesis
    using base64_not_Nil [OF b64 e] by (simp add: newVault_def Let_def generateRandomBytes_def)
qed

lemma same_key_opens:
  assumes b64: "base64RoundTrip P" and e: "uint8ArrayToBase64 P [] = []"
    and dig: "digestRoundTrip P" and avail: "encryptionAvailable w0"
    and created: "createVault P u mp w0 = (None, vc, w1)"
    and same: "deriveKey P (salt vc) pw (secretKey vc) = deriveKey P (salt vc) mp (secretKey vc)"
  shows "fst (openVault P u pw w1) = None"
proof -
  note cv = created_vault [OF created]
  have sk: "getSecretKey u w1 = Some (secretKey vc)" "secretKey vc \<noteq> []"
    using cv avail newVault_secretKey_not_Nil [OF b64 e, of u w0]
    by (simp_all add: getSecretKey_def)
  from openVault_cases [of w1 u P vc pw] cv
  obtain v3 where r: "openVault P u pw w1 =
        (if verifyPassword P v3 then saveToFile P v3 (snd (newVault P u w1))
         else (Some PasswordVerificationFailed, v3, snd (newVault P u w1)))"
    and v3: "vaultPasswords v3 = []" "verificationToken v3 = verificationToken vc"
      "verificationIV v3 = verificationIV vc" "verificationTag v3 = verificationTag vc"
      "derivedKey v3 = deriveKey P (salt vc) pw (secretKey v3)"
      "secretKey v3 = (case getSecretKey u w1 of
                         None \<Rightarrow> secretKey (fst (newVault P u w1))
                       | Some sk \<Rightarrow> if sk = [] then secretKey (fst (newVault P u w1)) else sk)"
    by blast
  have k3: "derivedKey v3 = derivedKey vc"
    using v3(5,6) sk same cv by simp
  have k: "length (derivedKey v3) = 32"
    using v3(5) by simp
  have "sealed P v3"
    using cv v3 by (intro sealed_cong [of P vc v3] k3) simp_all
  then have "verifyPassword P v3"
    by (rule sealed_verifies [OF b64 dig k])
  moreover obtain v' w' where "saveToFile P v3 (snd (newVault P u w1)) = (None, v', w')"
    using saveToFile_sealed [OF k, of P "snd (newVault P u w1)"] by blast
  ultimately show ?thesis
    using r by simp
qed

lemma examplePlatform_digest: "digestRoundTrip examplePlatform"
  by (simp add: digestRoundTrip_def)

text \<open>
  Opening writes only after the verification: an opening that fails, for whatever reason,
  leaves the world as it was.
\<close>

lemma factory_failure_writes_nothing:
  "fst (factory P pw False v w) = None \<or> snd (snd (factory P pw False v w)) = w"
proof -
  let ?vs = "case getSecretKey (user v) w of None \<Rightarrow> v
             | Some sk \<Rightarrow> if sk = [] then v else v\<lparr>secretKey := sk\<rparr>"
  let ?r = "createFromFile P ?vs w"
  let ?v3 = "(snd ?r)\<lparr>derivedKey := deriveKey P (salt (snd ?r)) pw (secretKey (snd ?r))\<rparr>"
  show ?thesis
  proof (cases "fst ?r")
    case (Some e)
    then show ?thesis
      by (simp add: factory_def Let_def)
  next
    case None
    have k: "length (derivedKey ?v3) = 32"
      by simp
    obtain v' w' where "saveToFile P ?v3 w = (None, v', w')"
      using saveToFile_sealed [OF k, of P w] by blast
    then show ?thesis
      using None by (simp add: factory_def Let_def)
  qed
qed

text \<open>The password a vault was created with opens it, where the key store is available.\<close>

lemma master_password_opens:
  assumes b64: "base64RoundTrip P" and e: "uint8ArrayToBase64 P [] = []"
    and dig: "digestRoundTrip P" and avail: "encryptionAvailable w0"
    and created: "createVault P u mp w0 = (None, vc, w1)"
  shows "fst (openVault P u mp w1) = None"
  by (rule same_key_opens [OF b64 e dig avail created refl])
section \<open>Adding an entry\<close>

subsection \<open>The states that adding, removing, saving and loading build\<close>

text \<open>
  A vault starts without entries (\<open>newVault_fresh\<close>). The loop of \<open>removePassword\<close> only
  deletes entries, and a file written by \<open>saveToFile\<close> loads to the entries it was written
  from: identifiers that increase along the list still do afterwards.
\<close>

lemma newPassword_getAsObject:
  assumes "base64RoundTrip P"
  shows "newPassword P (getAsObject P p) = Inr p"
  by (simp add: newPassword_def getAsObject_def base64ToUint8Array_roundTrip [OF assms])

lemma pushPasswords_getAsObject:
  assumes "base64RoundTrip P"
  shows "pushPasswords P (map (getAsObject P) ps) v =
           (None, v\<lparr>vaultPasswords := vaultPasswords v @ ps\<rparr>)"
  by (induction ps arbitrary: v) (simp_all add: newPassword_getAsObject [OF assms])

lemma createFromFile_saved:
  assumes b64: "base64RoundTrip P" and stored: "vaultFiles w (user v) = Some (userData P v0)"
  shows "fst (createFromFile P v w) = None \<and>
         vaultPasswords (snd (createFromFile P v w)) = vaultPasswords v @ vaultPasswords v0"
  using stored
  by (simp add: createFromFile_def userData_def Let_def pushPasswords_getAsObject [OF b64])

lemma sorted_wrt_remove_middle:
  "sorted_wrt rel (ys @ x # zs) \<Longrightarrow> sorted_wrt rel (ys @ zs)"
  by (simp add: sorted_wrt_append)

lemma splice1_increasing:
  assumes "increasingIds ps"
  shows "increasingIds (splice1 start ps)"
proof -
  define a where "a = nat (if start < 0 then max (int (length ps) + start) 0
                           else min start (int (length ps)))"
  have s: "splice1 start ps = take a ps @ drop (a + 1) ps"
    by (simp add: splice1_def Let_def a_def)
  show ?thesis
  proof (cases "a < length ps")
    case True
    then have "ps = take a ps @ ps ! a # drop (Suc a) ps"
      by (rule id_take_nth_drop)
    then have "sorted_wrt (<) (map passwordId (take a ps) @ passwordId (ps ! a) #
                 map passwordId (drop (Suc a) ps))"
      using assms unfolding increasingIds_def by (metis list.simps(9) map_append)
    then have "sorted_wrt (<) (map passwordId (take a ps) @ map passwordId (drop (Suc a) ps))"
      by (rule sorted_wrt_remove_middle)
    then show ?thesis
      by (simp add: s increasingIds_def)
  next
    case False
    then show ?thesis
      using assms by (simp add: s)
  qed
qed

lemma splice1_subset: "set (splice1 start ps) \<subseteq> set ps"
proof -
  have "set (take a ps) \<subseteq> set ps" "set (drop b ps) \<subseteq> set ps" for a b
    by (simp_all add: set_take_subset set_drop_subset)
  then show ?thesis
    by (auto simp: splice1_def Let_def)
qed

lemma removeLoop_increasing:
  "increasingIds ps \<Longrightarrow> increasingIds (removeLoop ident i ps)"
proof (induction ident i ps rule: removeLoop.induct)
  case (1 ident i ps)
  then show ?case
    by (simp add: removeLoop.simps [of ident i ps] splice1_increasing)
qed

lemma removeLoop_subset: "set (removeLoop ident i ps) \<subseteq> set ps"
proof (induction ident i ps rule: removeLoop.induct)
  case (1 ident i ps)
  show ?case
  proof (cases "i < length ps \<and> passwordId (ps ! i) = ident")
    case True
    then have "set (removeLoop ident i ps) \<subseteq> set (splice1 ident ps)"
      using "1.IH"(1) by (simp add: removeLoop.simps [of ident i ps])
    then show ?thesis
      using splice1_subset [of ident ps] by blast
  next
    case False
    then show ?thesis
      using "1.IH"(2) by (auto simp: removeLoop.simps [of ident i ps])
  qed
qed


text \<open>
  After at most \<open>2 ^ 53\<close> additions the identifiers increase along the list and are below
  the number of additions.
\<close>

lemma builtWithin_invariant:
  assumes "builtWithin n ps" and "n \<le> 2 ^ 53"
  shows "increasingIds ps \<and> (\<forall>q \<in> set ps. 0 \<le> passwordId q \<and> passwordId q < int n)"
  using assms
proof (induction rule: builtWithin.induct)
  case new
  then show ?case
    by (simp add: increasingIds_def)
next
  case (added n ps p)
  then have ih: "increasingIds ps" "\<forall>q \<in> set ps. 0 \<le> passwordId q \<and> passwordId q < int n"
    and n: "int n < 2 ^ 53"
    by simp_all
  have next_id: "passwordId p = (if ps = [] then 0 else passwordId (last ps) + 1)"
  proof (cases "ps = []")
    case True
    then show ?thesis using added.hyps(2) by simp
  next
    case False
    then have "0 \<le> passwordId (last ps)" "passwordId (last ps) < int n"
      using ih(2) by simp_all
    then have "increment (passwordId (last ps)) = passwordId (last ps) + 1"
      using n by (intro increment_safe) simp
    then show ?thesis using added.hyps(2) False by simp
  qed
  have "increasingIds (ps @ [p])"
    using ih(1) next_id by (rule increasingIds_append)
  moreover have "0 \<le> passwordId p \<and> passwordId p < int (Suc n)"
  proof (cases "ps = []")
    case True
    then show ?thesis using next_id by simp
  next
    case False
    then have "0 \<le> passwordId (last ps)" "passwordId (last ps) < int n"
      using ih(2) by simp_all
    then show ?thesis using next_id False by simp
  qed
  ultimately show ?case
    using ih(2) by auto
next
  case (removed n ps ident)
  then have ih: "increasingIds ps" "\<forall>q \<in> set ps. 0 \<le> passwordId q \<and> passwordId q < int n"
    by simp_all
  show ?case
    using removeLoop_increasing [OF ih(1)] removeLoop_subset [of ident 0 ps] ih(2) by blast
qed

lemma builtWithin_safe:
  assumes "builtWithin n ps" and "n \<le> 2 ^ 53"
  shows "increasingIds ps \<and> (\<forall>q \<in> set ps. \<bar>passwordId q\<bar> < 2 ^ 53)"
proof -
  note inv = builtWithin_invariant [OF assms]
  have "int n \<le> 2 ^ 53"
    using assms(2) by (metis of_nat_le_iff of_nat_numeral of_nat_power)
  then have "\<bar>passwordId q\<bar> < 2 ^ 53" if "q \<in> set ps" for q
    using inv that by fastforce
  then show ?thesis
    using inv by blast
qed

subsection \<open>What \<open>sync\<close> leaves of an added entry\<close>

text \<open>
  \<open>sync\<close> only moves the random generator forward, and it keeps the entries unless it
  downloads a remote vault that is newer than the local one.
\<close>

lemma saveToFile_generator:
  "randomSource (snd (snd (saveToFile P v w))) = randomSource w \<and>
   randomPos w \<le> randomPos (snd (snd (saveToFile P v w)))"
  by (simp add: saveToFile_def setVerificationToken_def Let_def thenDo_def generateRandomIV_def
      getRandomValues_def toISOString_def writeVaultFile_def split: sum.splits)

lemma uploadVault_vault: "fst (snd (uploadVault P v w)) = v"
  by (simp add: uploadVault_def Let_def split: option.splits sum.splits)

lemma postVault_generator:
  "postVault w t d = Some w' \<Longrightarrow> randomSource w' = randomSource w \<and> randomPos w' = randomPos w"
  by (auto simp: postVault_def split: if_splits option.splits)

lemma uploadVault_generator:
  "randomSource (snd (snd (uploadVault P v w))) = randomSource w \<and>
   randomPos w \<le> randomPos (snd (snd (uploadVault P v w)))"
proof (cases "heldToken v")
  case None
  then show ?thesis
    by (simp add: uploadVault_def)
next
  case (Some t)
  let ?r1 = "generateRandomIV w"
  let ?r2 = "generateRandomIV (snd ?r1)"
  have g: "randomSource (snd ?r1) = randomSource w" "randomPos (snd ?r1) = randomPos w + 16"
      "randomSource (snd ?r2) = randomSource w" "randomPos (snd ?r2) = randomPos w + 32"
    by (simp_all add: generateRandomIV_def getRandomValues_def)
  show ?thesis
    using Some g postVault_generator [of "snd ?r2" t]
    by (auto simp: uploadVault_def Let_def split: sum.splits option.splits)
qed

lemma sync_generator:
  "randomSource (snd (sync P v w)) = randomSource w \<and> randomPos w \<le> randomPos (snd (sync P v w))"
proof (cases "heldToken v")
  case None
  then show ?thesis by simp
next
  case (Some t)
  show ?thesis
  proof (cases "getVault w t")
    case FetchFailed
    then show ?thesis
      using Some by (simp add: sync_def)
  next
    case (Status n)
    then show ?thesis
      using Some uploadVault_generator [of P v w] by (simp add: sync_def caught_def)
  next
    case (Ok200 d)
    let ?r = "importVaultData P d v"
    show ?thesis
      using Some Ok200 uploadVault_generator [of P v w] saveToFile_generator [of P "snd ?r" w]
      by (simp add: sync_def Let_def caught_def split: option.splits)
  qed
qed

lemma sync_entries:
  "vaultPasswords (fst (sync P v w)) = vaultPasswords v \<or>
   (\<exists>t d. heldToken v = Some t \<and> getVault w t = Ok200 d \<and>
      laterThan (dateGetTime P (sync_updatedAt d)) (dateGetTime P (updatedAt v)))"
proof (cases "heldToken v")
  case None
  then show ?thesis by simp
next
  case (Some t)
  show ?thesis
  proof (cases "getVault w t")
    case FetchFailed
    then show ?thesis
      using Some by (simp add: sync_def)
  next
    case (Status n)
    then show ?thesis
      using Some uploadVault_vault [of P v w] by (simp add: sync_def caught_def)
  next
    case (Ok200 d)
    then show ?thesis
      using Some uploadVault_vault [of P v w] by (simp add: sync_def Let_def caught_def)
  qed
qed

subsection \<open>\<open>addPassword\<close>\<close>

text \<open>
  In an unlocked vault \<open>addPassword\<close> pushes one entry, saves and calls \<open>sync\<close>. The
  identifier of the entry is \<open>0\<close> in an empty list and otherwise that of the last entry,
  incremented as a number; its two nonces are the first and the second 16 bytes that the
  generator yields, and the save draws 16 more.
\<close>

lemma addPasswordLocal_result:
  fixes w :: World
  assumes key: "length (derivedKey v) = 32" and b64: "base64RoundTrip P"
  defines "ivPass \<equiv> map (randomSource w) [randomPos w..<randomPos w + 16]"
    and "ivUser \<equiv> map (randomSource w) [randomPos w + 16..<randomPos w + 32]"
  shows "\<exists>p v' w'. addPasswordLocal P usr pw st nt cat fav v w = (None, v', w') \<and>
           vaultPasswords v' = vaultPasswords v @ [p] \<and>
           passwordId p = (if vaultPasswords v = [] then 0
                           else increment (passwordId (last (vaultPasswords v)))) \<and>
           passwordIV p = ivPass \<and> usernameIV p = ivUser \<and>
           derivedKey v' = derivedKey v \<and> user v' = user v \<and> heldToken v' = heldToken v \<and>
           randomSource w' = randomSource w \<and> randomPos w' = randomPos w + 32"
proof -
  have r1: "fst (generateRandomIV w) = ivPass"
    by (simp add: generateRandomIV_def getRandomValues_def ivPass_def)
  have r2: "fst (generateRandomIV (snd (generateRandomIV w))) = ivUser"
    by (simp add: generateRandomIV_def getRandomValues_def ivUser_def add_ac)
  have g: "randomSource (snd (generateRandomIV (snd (generateRandomIV w)))) = randomSource w"
      "randomPos (snd (generateRandomIV (snd (generateRandomIV w)))) = randomPos w + 32"
    by (simp_all add: generateRandomIV_def getRandomValues_def)
  obtain encP where encP: "encrypt (derivedKey v) ivPass (stringToUint8Array P pw) [] = Inr encP"
    using encrypt_ok [OF key] by blast
  obtain encU where encU: "encrypt (derivedKey v) ivUser (stringToUint8Array P usr) [] = Inr encU"
    using encrypt_ok [OF key] by blast
  show ?thesis
    using g
    by (simp add: addPasswordLocal_def Let_def r1 r2 encP encU newPassword_def
        base64ToUint8Array_roundTrip [OF b64] toISOString_def heldToken_def)
qed

lemma addPassword_result:
  fixes w :: World
  assumes key: "length (derivedKey v) = 32" and b64: "base64RoundTrip P"
  shows "\<exists>p v2 w2. addPassword P usr pw st nt cat fav v w = (None, sync P v2 w2) \<and>
           vaultPasswords v2 = vaultPasswords v @ [p] \<and>
           vaultFiles w2 (user v) = Some (userData P v2) \<and>
           heldToken v2 = heldToken v \<and>
           passwordId p = (if vaultPasswords v = [] then 0
                           else increment (passwordId (last (vaultPasswords v)))) \<and>
           passwordIV p = map (randomSource w) [randomPos w..<randomPos w + 16] \<and>
           usernameIV p = map (randomSource w) [randomPos w + 16..<randomPos w + 32] \<and>
           randomSource w2 = randomSource w \<and> randomPos w2 = randomPos w + 48"
proof -
  from addPasswordLocal_result [OF key b64, of usr pw st nt cat fav w]
  obtain p v1 w1 where l: "addPasswordLocal P usr pw st nt cat fav v w = (None, v1, w1)"
    "vaultPasswords v1 = vaultPasswords v @ [p]"
    "passwordId p = (if vaultPasswords v = [] then 0
                     else increment (passwordId (last (vaultPasswords v))))"
    "passwordIV p = map (randomSource w) [randomPos w..<randomPos w + 16]"
    "usernameIV p = map (randomSource w) [randomPos w + 16..<randomPos w + 32]"
    "derivedKey v1 = derivedKey v" "user v1 = user v" "heldToken v1 = heldToken v"
    "randomSource w1 = randomSource w" "randomPos w1 = randomPos w + 32"
    by blast
  have k1: "length (derivedKey v1) = 32"
    using key l(6) by simp
  from saveToFile_ok [OF k1, of P w1]
  obtain v2 w2 where s: "saveToFile P v1 w1 = (None, v2, w2)"
    "vaultPasswords v2 = vaultPasswords v1" "user v2 = user v1" "token v2 = token v1"
    "vaultFiles w2 (user v1) = Some (userData P v2)"
    "randomSource w2 = randomSource w1" "randomPos w2 = randomPos w1 + 16"
    by force
  have "addPassword P usr pw st nt cat fav v w = (None, sync P v2 w2)"
    by (simp add: addPassword_def l(1) s(1))
  moreover have "heldToken v2 = heldToken v"
    using s(4) l(8) by (simp add: heldToken_def)
  ultimately show ?thesis
    using l s by (intro exI [of _ p] exI [of _ v2] exI [of _ w2]) simp
qed


text \<open>At \<open>2 ^ 53\<close> a number no longer grows by adding 1.\<close>

lemma increment_limit: "increment (2 ^ 53) = 2 ^ 53"
  by (simp add: increment_def roundToDouble_def Let_def bitLength.simps)

text \<open>
  Claim C8. In every unlocked vault whose identifiers increase along the list and are safe
  integers (below \<open>2 ^ 53\<close> in absolute value), as they are in every list that adding and
  removing build (\<open>builtWithin_safe\<close>), \<open>addPassword\<close> gives the new entry the maximum of
  the existing identifiers plus 1, or 0 when there is no entry. The entry is in the saved
  file, the identifiers still increase, and the entry is in the vault after the \<open>sync\<close>
  that ends the method unless that \<open>sync\<close> downloads a newer remote vault.
\<close>

theorem addPassword_identifier:
  fixes w :: World
  assumes unlocked: "length (derivedKey v) = 32" and b64: "base64RoundTrip P"
    and inc: "increasingIds (vaultPasswords v)"
    and safe: "\<forall>q \<in> set (vaultPasswords v). \<bar>passwordId q\<bar> < 2 ^ 53"
  shows "\<exists>p v2 w2. addPassword P usr pw st nt cat fav v w = (None, sync P v2 w2) \<and>
           vaultPasswords v2 = vaultPasswords v @ [p] \<and>
           vaultFiles w2 (user v) = Some (userData P v2) \<and>
           heldToken v2 = heldToken v \<and>
           passwordId p = (if vaultPasswords v = [] then 0
                           else Max (passwordId ` set (vaultPasswords v)) + 1) \<and>
           increasingIds (vaultPasswords v2) \<and>
           (vaultPasswords (fst (sync P v2 w2)) = vaultPasswords v @ [p] \<or>
            (\<exists>t d. heldToken v = Some t \<and> getVault w2 t = Ok200 d \<and>
               laterThan (dateGetTime P (sync_updatedAt d)) (dateGetTime P (updatedAt v2))))"
proof -
  from addPassword_result [OF unlocked b64, of usr pw st nt cat fav w]
  obtain p v2 w2 where r: "addPassword P usr pw st nt cat fav v w = (None, sync P v2 w2)"
    "vaultPasswords v2 = vaultPasswords v @ [p]"
    "vaultFiles w2 (user v) = Some (userData P v2)"
    "heldToken v2 = heldToken v"
    "passwordId p = (if vaultPasswords v = [] then 0
                     else increment (passwordId (last (vaultPasswords v))))"
    by blast
  have next_id: "passwordId p = (if vaultPasswords v = [] then 0
                           else passwordId (last (vaultPasswords v)) + 1)"
  proof (cases "vaultPasswords v = []")
    case True
    then show ?thesis using r(5) by simp
  next
    case False
    then have "\<bar>passwordId (last (vaultPasswords v))\<bar> < 2 ^ 53"
      using safe by simp
    then have "increment (passwordId (last (vaultPasswords v))) =
               passwordId (last (vaultPasswords v)) + 1"
      by (intro increment_safe) simp
    then show ?thesis using r(5) False by simp
  qed
  have "passwordId p = (if vaultPasswords v = [] then 0
                        else Max (passwordId ` set (vaultPasswords v)) + 1)"
    using next_id inc by (simp add: last_id_is_Max)
  moreover have "increasingIds (vaultPasswords v2)"
    unfolding r(2) using inc next_id by (rule increasingIds_append)
  moreover have "vaultPasswords (fst (sync P v2 w2)) = vaultPasswords v @ [p] \<or>
      (\<exists>t d. heldToken v = Some t \<and> getVault w2 t = Ok200 d \<and>
         laterThan (dateGetTime P (sync_updatedAt d)) (dateGetTime P (updatedAt v2)))"
    using sync_entries [of P v2 w2] r(2,4) by simp
  ultimately show ?thesis
    using r(1-4) by blast
qed

theorem addPassword_identifier_witness:
  "\<exists>p v2 w2. addPassword examplePlatform ''me'' ''pass'' ''site'' [] [] False
               (exampleVault [0, 1, 4]) exampleWorld = (None, v2, w2) \<and>
     vaultPasswords v2 = vaultPasswords (exampleVault [0, 1, 4]) @ [p] \<and>
     passwordId p = 5 \<and>
     increasingIds (vaultPasswords v2)"
proof -
  let ?v = "exampleVault [0, 1, 4]"
  have inc: "increasingIds (vaultPasswords ?v)"
    by (simp add: increasingIds_def exampleVault_def exampleEntry_def)
  have safe: "\<forall>q \<in> set (vaultPasswords ?v). \<bar>passwordId q\<bar> < 2 ^ 53"
    by (simp add: exampleVault_def exampleEntry_def)
  have ne: "vaultPasswords ?v \<noteq> []"
    by (simp add: exampleVault_def)
  have m: "Max (passwordId ` set (vaultPasswords ?v)) = 4"
    by (simp add: exampleVault_def exampleEntry_def)
  have k: "length (derivedKey ?v) = 32"
    by simp
  from addPassword_identifier [OF k examplePlatform_base64 inc safe,
      where usr = "''me''" and pw = "''pass''" and st = "''site''" and nt = "[]" and cat = "[]"
        and fav = False and w = exampleWorld]
  obtain p v2 w2 where r:
    "addPassword examplePlatform ''me'' ''pass'' ''site'' [] [] False ?v exampleWorld =
       (None, sync examplePlatform v2 w2)"
    "vaultPasswords v2 = vaultPasswords ?v @ [p]" "heldToken v2 = heldToken ?v"
    "passwordId p = (if vaultPasswords ?v = [] then 0
                     else Max (passwordId ` set (vaultPasswords ?v)) + 1)"
    "increasingIds (vaultPasswords v2)"
    by blast
  have "sync examplePlatform v2 w2 = (v2, w2)"
    using r(3) by simp
  moreover have "passwordId p = 5"
    using r(4) ne m by simp
  ultimately show ?thesis
    using r by auto
qed

text \<open>
  Claim C7 (amended). In every unlocked vault the entry that \<open>addPassword\<close> creates carries
  two nonces of 16 bytes each, not 12: the password's is the first and the username's the
  second of two successive draws of 16 bytes from the random generator, and they are
  distinct whenever those two draws differ. The draws are consumed: after the method the
  generator stands at least 48 bytes further, so that a later operation draws other bytes.
\<close>

theorem addPassword_nonces:
  fixes w :: World
  assumes unlocked: "length (derivedKey v) = 32" and b64: "base64RoundTrip P"
    and fresh: "map (randomSource w) [randomPos w..<randomPos w + 16] \<noteq>
                map (randomSource w) [randomPos w + 16..<randomPos w + 32]"
  shows "\<exists>p v2 w2. addPassword P usr pw st nt cat fav v w = (None, sync P v2 w2) \<and>
           vaultPasswords v2 = vaultPasswords v @ [p] \<and>
           vaultFiles w2 (user v) = Some (userData P v2) \<and>
           heldToken v2 = heldToken v \<and>
           length (passwordIV p) = 16 \<and> length (usernameIV p) = 16 \<and>
           passwordIV p = map (randomSource w) [randomPos w..<randomPos w + 16] \<and>
           usernameIV p = map (randomSource w) [randomPos w + 16..<randomPos w + 32] \<and>
           usernameIV p \<noteq> passwordIV p \<and>
           randomSource w2 = randomSource w \<and> randomPos w2 = randomPos w + 48 \<and>
           randomSource (snd (sync P v2 w2)) = randomSource w \<and>
           randomPos w + 48 \<le> randomPos (snd (sync P v2 w2)) \<and>
           (vaultPasswords (fst (sync P v2 w2)) = vaultPasswords v @ [p] \<or>
            (\<exists>t d. heldToken v = Some t \<and> getVault w2 t = Ok200 d \<and>
               laterThan (dateGetTime P (sync_updatedAt d)) (dateGetTime P (updatedAt v2))))"
proof -
  from addPassword_result [OF unlocked b64, of usr pw st nt cat fav w]
  obtain p v2 w2 where r: "addPassword P usr pw st nt cat fav v w = (None, sync P v2 w2)"
    "vaultPasswords v2 = vaultPasswords v @ [p]"
    "vaultFiles w2 (user v) = Some (userData P v2)"
    "heldToken v2 = heldToken v"
    "passwordIV p = map (randomSource w) [randomPos w..<randomPos w + 16]"
    "usernameIV p = map (randomSource w) [randomPos w + 16..<randomPos w + 32]"
    "randomSource w2 = randomSource w" "randomPos w2 = randomPos w + 48"
    by blast
  have len: "length (passwordIV p) = 16" "length (usernameIV p) = 16"
    using r(5,6) by simp_all
  have diff: "usernameIV p \<noteq> passwordIV p"
    using fresh r(5,6) by simp
  have gen: "randomSource (snd (sync P v2 w2)) = randomSource w"
      "randomPos w + 48 \<le> randomPos (snd (sync P v2 w2))"
    using sync_generator [of P v2 w2] r(7,8) by simp_all
  have ent: "vaultPasswords (fst (sync P v2 w2)) = vaultPasswords v @ [p] \<or>
      (\<exists>t d. heldToken v = Some t \<and> getVault w2 t = Ok200 d \<and>
         laterThan (dateGetTime P (sync_updatedAt d)) (dateGetTime P (updatedAt v2)))"
    using sync_entries [of P v2 w2] r(2,4) by simp
  show ?thesis
    using r len diff gen ent by blast
qed

theorem addPassword_nonces_witness:
  "\<exists>p v2 w2. addPassword examplePlatform ''me'' ''pass'' ''site'' [] [] False
               (exampleVault []) exampleWorld = (None, v2, w2) \<and>
     vaultPasswords v2 = [p] \<and>
     length (passwordIV p) = 16 \<and> length (usernameIV p) = 16 \<and>
     passwordIV p = map word_of_nat [0..<16] \<and>
     usernameIV p = map word_of_nat [16..<32] \<and>
     usernameIV p \<noteq> passwordIV p \<and>
     randomPos w2 = 48"
proof -
  let ?v = "exampleVault []"
  have k: "length (derivedKey ?v) = 32"
    by simp
  have fresh: "map (randomSource exampleWorld) [randomPos exampleWorld..<randomPos exampleWorld + 16]
               \<noteq> map (randomSource exampleWorld)
                    [randomPos exampleWorld + 16..<randomPos exampleWorld + 32]"
    by (simp add: exampleWorld_def upt_rec)
  from addPassword_nonces [OF k examplePlatform_base64 fresh,
      where usr = "''me''" and pw = "''pass''" and st = "''site''" and nt = "[]" and cat = "[]"
        and fav = False]
  obtain p v2 w2 where r:
    "addPassword examplePlatform ''me'' ''pass'' ''site'' [] [] False ?v exampleWorld =
       (None, sync examplePlatform v2 w2)"
    "vaultPasswords v2 = vaultPasswords ?v @ [p]" "heldToken v2 = heldToken ?v"
    "length (passwordIV p) = 16" "length (usernameIV p) = 16"
    "passwordIV p = map (randomSource exampleWorld)
                      [randomPos exampleWorld..<randomPos exampleWorld + 16]"
    "usernameIV p = map (randomSource exampleWorld)
                      [randomPos exampleWorld + 16..<randomPos exampleWorld + 32]"
    "usernameIV p \<noteq> passwordIV p"
    "randomPos w2 = randomPos exampleWorld + 48"
    by blast
  have "sync examplePlatform v2 w2 = (v2, w2)"
    using r(3) by simp
  moreover have "vaultPasswords v2 = [p]"
    using r(2) by (simp add: exampleVault_def)
  moreover have "passwordIV p = map word_of_nat [0..<16]" "usernameIV p = map word_of_nat [16..<32]"
      "randomPos w2 = 48"
    using r(6,7,9) by (simp_all add: exampleWorld_def)
  ultimately show ?thesis
    using r(1,4,5,8) by auto
qed

text \<open>
  The claim's length fails: the entry added to the empty example vault carries nonces of
  16 bytes.
\<close>

theorem addPassword_nonces_counterexample:
  "fst (addPassword examplePlatform ''me'' ''pass'' ''site'' [] [] False
          (exampleVault []) exampleWorld) = None \<and>
   length (usernameIV (last (vaultPasswords (fst (snd
     (addPassword examplePlatform ''me'' ''pass'' ''site'' [] [] False
        (exampleVault []) exampleWorld)))))) = 16 \<and>
   length (passwordIV (last (vaultPasswords (fst (snd
     (addPassword examplePlatform ''me'' ''pass'' ''site'' [] [] False
        (exampleVault []) exampleWorld)))))) = 16 \<and>
   (16 :: nat) \<noteq> 12"
proof -
  let ?v = "exampleVault []"
  have k: "length (derivedKey ?v) = 32"
    by simp
  from addPassword_result [OF k examplePlatform_base64,
      where usr = "''me''" and pw = "''pass''" and st = "''site''" and nt = "[]" and cat = "[]"
        and fav = False and w = exampleWorld]
  obtain p v2 w2 where r:
    "addPassword examplePlatform ''me'' ''pass'' ''site'' [] [] False ?v exampleWorld =
       (None, sync examplePlatform v2 w2)"
    "vaultPasswords v2 = vaultPasswords ?v @ [p]" "heldToken v2 = heldToken ?v"
    "passwordIV p = map (randomSource exampleWorld)
                      [randomPos exampleWorld..<randomPos exampleWorld + 16]"
    "usernameIV p = map (randomSource exampleWorld)
                      [randomPos exampleWorld + 16..<randomPos exampleWorld + 32]"
    by blast
  have "sync examplePlatform v2 w2 = (v2, w2)"
    using r(3) by simp
  then show ?thesis
    using r by simp
qed

text \<open>
  The code does not compare the two nonces: were the two draws equal, the nonces would be.
\<close>

lemma addPassword_nonces_repeat:
  fixes w :: World
  assumes unlocked: "length (derivedKey v) = 32" and b64: "base64RoundTrip P"
    and same: "map (randomSource w) [randomPos w..<randomPos w + 16] =
               map (randomSource w) [randomPos w + 16..<randomPos w + 32]"
  shows "\<exists>p v2 w2. addPassword P usr pw st nt cat fav v w = (None, sync P v2 w2) \<and>
           vaultPasswords v2 = vaultPasswords v @ [p] \<and> usernameIV p = passwordIV p"
proof -
  from addPassword_result [OF unlocked b64, of usr pw st nt cat fav w]
  obtain p v2 w2 where r: "addPassword P usr pw st nt cat fav v w = (None, sync P v2 w2)"
    "vaultPasswords v2 = vaultPasswords v @ [p]"
    "passwordIV p = map (randomSource w) [randomPos w..<randomPos w + 16]"
    "usernameIV p = map (randomSource w) [randomPos w + 16..<randomPos w + 32]"
    by blast
  have "usernameIV p = passwordIV p"
    using same r(3,4) by simp
  with r(1,2) show ?thesis
    by blast
qed

end
